theory Spec2Isabelle
  imports Complex_Main
begin

section \<open>The binary disk spectrum notebook\<close>

text \<open>
  The notebook computes with Python and numpy floats. Here a float is a real number and
  an operation is exact, with two exceptions, where a sum absorbs its small term and
  the program goes another way than exact arithmetic: \<open>1.0 + delta\<close> in the loop of
  \<open>disk_spectrum\<close> and \<open>1 + q ** (1 / 3)\<close> in \<open>HillR\<close>. These two sums are rounded to
  binary64 as the machine does. The rounding of every other operation (a relative
  error of \<open>2^-53\<close>), overflow to infinity, subnormal numbers and signed zeros are
  not part of the model. What Python does where real arithmetic has no answer is
  written out as a value of \<open>error\<close>:
  \<^item> \<open>ZeroDivisionError\<close>: a division of Python floats by zero, which raises;
  \<^item> \<open>TypeError\<close>: numpy refuses to add a complex array in place into a float array;
  \<^item> \<open>ComplexValue\<close>: a negative Python float raised to a fractional power is a
    complex number. Nothing is raised at that point and Python computes on;
  \<^item> \<open>NotANumber\<close>: numpy yields nan (root of a negative number, zero over zero)
    and computes on.
  The last two are not exceptions. The model stops at them and says nothing about
  what Python does afterwards, termination included.
\<close>

datatype error = ZeroDivisionError | TypeError | ComplexValue | NotANumber

subsection \<open>Rounding to binary64\<close>

text \<open>
  The nearest integer, a tie going to the even one, and the nearest binary64 number:
  a significand of 53 bits at the binary exponent of the argument. The exponent is
  not bounded.
\<close>

definition round_half_even :: "real \<Rightarrow> int" where
  "round_half_even y =
     (let n = \<lfloor>y\<rfloor> in
      if y - of_int n < 1 / 2 then n
      else if 1 / 2 < y - of_int n then n + 1
      else if even n then n else n + 1)"

definition binary64 :: "real \<Rightarrow> real" where
  "binary64 x =
     (if x = 0 then 0
      else let e = \<lfloor>log 2 \<bar>x\<bar>\<rfloor> in
        of_int (round_half_even (x / 2 powr (of_int e - 52))) * 2 powr (of_int e - 52))"

subsection \<open>Constants (cgs units)\<close>

definition G :: real where "G = 6.67 / 10 ^ 8"
definition Msun :: real where "Msun = 2 * 10 ^ 33"
definition sb :: real where "sb = 5.67 / 10 ^ 5"
definition c :: real where "c = 3 * 10 ^ 10"
definition h :: real where "h = 6.626 / 10 ^ 27"
definition k :: real where "k = 1.38 / 10 ^ 16"
definition year :: real where "year = 3.15 * 10 ^ 7"
definition tsal :: real where "tsal = 5 * 10 ^ 7 * year"
definition erg :: real where "erg = 6.242 * 10 ^ 11"

subsection \<open>Accretion rate, innermost stable orbit, Hill radius\<close>

definition Mdot_acc :: "real \<Rightarrow> real \<Rightarrow> real" where
  "Mdot_acc M edd_frac = edd_frac * M / tsal"

definition Risco :: "real \<Rightarrow> real" where
  "Risco M = 12 * G * M / c ^ 2"

text \<open>
  \<open>HillR\<close> raises its argument, a Python float, to the powers 2/3 and 1/3: for a
  negative \<open>q\<close> these are complex. At \<open>q = 0\<close> the quotient is 0.0 over numpy's
  \<open>log(1.0) = 0.0\<close>, which is nan. The argument of \<open>log\<close> is the float sum
  \<open>1 + q ** (1 / 3)\<close>, which is 1.0 when the cube root is small.
\<close>

definition HillR :: "real \<Rightarrow> error + real" where
  "HillR q =
     (if q < 0 then Inl ComplexValue
      else if q = 0 then Inl NotANumber
      else Inr (0.49 * (q powr (2 / 3))
                  / (0.6 * q powr (2 / 3) + ln (binary64 (1 + q powr (1 / 3))))))"

text \<open>
  The markdown cell above \<open>HillR\<close> says what it is to compute: ``this is Eqn. 2 of
  Eggleton (1982)'', the expression of \<open>HillR\<close> over the real numbers.
\<close>

definition Eggleton_Eqn2 :: "real \<Rightarrow> real" where
  "Eggleton_Eqn2 q = 0.49 * (q powr (2 / 3)) / (0.6 * q powr (2 / 3) + ln (1 + q powr (1 / 3)))"

subsection \<open>Disk temperature and Planck spectrum\<close>

text \<open>
  \<open>Tstar\<close> divides Python floats, which raises when \<open>R0 = 0\<close>, and takes the power
  0.25 of the quotient, which is complex when the quotient is negative.
\<close>

definition Tstar :: "real \<Rightarrow> real \<Rightarrow> real \<Rightarrow> error + real" where
  "Tstar R0 M Mdot =
     (if 8 * pi * R0 ^ 3 * sb = 0 then Inl ZeroDivisionError
      else if 3 * G * M * Mdot / (8 * pi * R0 ^ 3 * sb) < 0 then Inl ComplexValue
      else Inr ((3 * G * M * Mdot / (8 * pi * R0 ^ 3 * sb)) powr 0.25))"

text \<open>
  \<open>disk_temperature\<close> calls \<open>Tstar\<close> first, then divides \<open>R0\<close> by \<open>R\<close> (Python
  floats: raises at \<open>R = 0\<close>, also when \<open>Tstar\<close> was complex). A complex \<open>Tstar\<close> makes
  the product complex. numpy's \<open>sqrt\<close> of a negative number and the power 0.25 of a
  negative numpy float are nan.
\<close>

definition disk_temperature :: "real \<Rightarrow> real \<Rightarrow> real \<Rightarrow> real \<Rightarrow> error + real" where
  "disk_temperature R R0 M Mdot =
     (case Tstar R0 M Mdot of
        Inl ZeroDivisionError \<Rightarrow> Inl ZeroDivisionError
      | Inl e \<Rightarrow> if R = 0 then Inl ZeroDivisionError else Inl e
      | Inr ts \<Rightarrow>
          if R = 0 then Inl ZeroDivisionError
          else if R0 / R < 0 \<or> (R0 / R) ^ 3 * (1 - sqrt (R0 / R)) < 0
          then Inl NotANumber
          else Inr (ts * ((R0 / R) ^ 3 * (1 - sqrt (R0 / R))) powr 0.25))"

text \<open>
  \<open>planck_spectrum\<close> is applied to a numpy temperature and the positive frequencies of
  the grid. At \<open>T = 0\<close> numpy divides by zero without raising: the exponent is
  infinite and the quotient is 0.0.
\<close>

definition planck_spectrum :: "real \<Rightarrow> real \<Rightarrow> real" where
  "planck_spectrum T nu =
     (if T = 0 then 0
      else 2 * h * nu ^ 3 / c ^ 2 / (exp (h * nu / (k * T)) - 1))"

subsection \<open>The spectrum of one disk\<close>

text \<open>numpy's \<open>logspace(start, stop, num)\<close> for \<open>num > 1\<close>, and \<open>zeros_like\<close>.\<close>

definition logspace :: "real \<Rightarrow> real \<Rightarrow> nat \<Rightarrow> real list" where
  "logspace start stop num =
     map (\<lambda>i. 10 powr (start + real i * ((stop - start) / real (num - 1)))) [0..<num]"

definition zeros_like :: "real list \<Rightarrow> real list" where
  "zeros_like xs = replicate (length xs) 0"

text \<open>The expression \<open>0.5 * (nu_v[1:] + nu_v[:-1])\<close> of both functions.\<close>

definition bin_centers :: "real list \<Rightarrow> real list" where
  "bin_centers nu_v = map (\<lambda>(a, b). 0.5 * (a + b)) (zip (tl nu_v) (butlast nu_v))"

text \<open>
  The \<open>while\<close> loop of \<open>disk_spectrum\<close>, with its variables \<open>R\<close> and \<open>Inu\<close> as
  arguments and their last values as result. It returns \<open>None\<close> when it runs forever.
  The factor of \<open>R *= 1.0 + delta\<close> is a float sum. A complex temperature makes the
  summand a complex array, and \<open>Inu +=\<close> raises.
\<close>

partial_function (option) radial_loop ::
  "real \<Rightarrow> real \<Rightarrow> real \<Rightarrow> real \<Rightarrow> real \<Rightarrow> real list \<Rightarrow> real \<Rightarrow> real list
     \<Rightarrow> (error + real \<times> real list) option" where
  "radial_loop M Mdot R0 Rout delta nu_c R Inu =
     (if R < Rout then
        (case disk_temperature R R0 M Mdot of
           Inl ComplexValue \<Rightarrow> Some (Inl TypeError)
         | Inl e \<Rightarrow> Some (Inl e)
         | Inr T \<Rightarrow>
             radial_loop M Mdot R0 Rout delta nu_c (R * binary64 (1.0 + delta))
               (map (\<lambda>(I, nu). I + 2 * pi * R * (R * delta) * planck_spectrum T nu)
                  (zip Inu nu_c)))
      else Some (Inr (R, Inu)))"

text \<open>
  \<open>disk_spectrum\<close> returns what it printed together with the pair of the source.
\<close>

definition disk_spectrum ::
  "real \<Rightarrow> real \<Rightarrow> real \<Rightarrow> real \<Rightarrow> real
     \<Rightarrow> (error + string list \<times> real list \<times> real list) option" where
  "disk_spectrum M Mdot R0 Rout delta =
     (let nu_v = logspace 12 19 999;
          nu_c = bin_centers nu_v;
          R = R0 * 1.0001;
          Inu = zeros_like nu_c;
          out = (if Rout < R0 then [''Warning: Rout < R1, the spectrum is zero''] else [])
      in map_option (map_sum id (\<lambda>(R', Inu'). (out, nu_v, Inu')))
           (radial_loop M Mdot R0 Rout delta nu_c R Inu))"

subsection \<open>The three disks of the binary\<close>

text \<open>
  The local variables of \<open>plot_spectrum\<close> before its first call of \<open>disk_spectrum\<close>,
  in three groups: the masses, the accretion rates, the separation. \<open>M_bin\<close> is the
  source's \<open>M\<close> after \<open>M = M * Msun\<close>, \<open>Mdot_bin\<close> its \<open>Mdot\<close>.
\<close>

record masses =
  M_bin :: real
  M1 :: real
  M2 :: real

record rates = masses +
  eta :: real
  edd_frac_1 :: real
  edd_frac_2 :: real
  Mdot1 :: real
  Mdot2 :: real
  Mdot_bin :: real

record locals = rates +
  a0 :: real

text \<open>
  The assignments of \<open>plot_spectrum\<close> in their order. All operands are Python floats, so
  each division by zero raises. First \<open>M\<close>, \<open>M1\<close> and \<open>M2\<close>.
\<close>

definition plot_spectrum_masses :: "real \<Rightarrow> real \<Rightarrow> error + masses" where
  "plot_spectrum_masses M q =
     (let M = M * Msun in
      if 1 + q = 0 then Inl ZeroDivisionError
      else
        let M1 = M / (1 + q);
            M2 = M1 * q
        in Inr \<lparr>M_bin = M, M1 = M1, M2 = M2\<rparr>)"

text \<open>Then \<open>eta\<close>, the two Eddington fractions and the three accretion rates.\<close>

definition plot_spectrum_rates :: "real \<Rightarrow> real \<Rightarrow> real \<Rightarrow> error + rates" where
  "plot_spectrum_rates M q pref_acc =
     (case plot_spectrum_masses M q of
        Inl e \<Rightarrow> Inl e
      | Inr m \<Rightarrow>
          let eta = q / (1 + q) ^ 2 in
          if 1 + pref_acc = 0 then Inl ZeroDivisionError
          else
            let edd_frac_1 = (1 + q) / (1 + pref_acc) in
            if q = 0 then Inl ZeroDivisionError
            else
              let edd_frac_2 = pref_acc * edd_frac_1 / q;
                  Mdot1 = Mdot_acc (M1 m) edd_frac_1;
                  Mdot2 = Mdot_acc (M2 m) edd_frac_2;
                  Mdot = Mdot_acc (M_bin m) 1.0
              in Inr \<lparr>M_bin = M_bin m, M1 = M1 m, M2 = M2 m, eta = eta,
                      edd_frac_1 = edd_frac_1, edd_frac_2 = edd_frac_2,
                      Mdot1 = Mdot1, Mdot2 = Mdot2, Mdot_bin = Mdot\<rparr>)"

text \<open>
  Then \<open>a0\<close>. The base of the power \<open>-2/5\<close> is a quotient of Python floats and never
  zero; where it is negative \<open>a0\<close> is complex.
\<close>

definition plot_spectrum_locals :: "real \<Rightarrow> real \<Rightarrow> real \<Rightarrow> real \<Rightarrow> error + locals" where
  "plot_spectrum_locals M q pref_acc Notm =
     (case plot_spectrum_rates M q pref_acc of
        Inl e \<Rightarrow> Inl e
      | Inr r \<Rightarrow>
          if 128 * pi * eta r * 4 * Notm = 0 then Inl ZeroDivisionError
          else if 5 / (128 * pi * eta r * 4 * Notm) < 0 then Inl ComplexValue
          else
            Inr \<lparr>M_bin = M_bin r, M1 = M1 r, M2 = M2 r, eta = eta r,
                 edd_frac_1 = edd_frac_1 r, edd_frac_2 = edd_frac_2 r,
                 Mdot1 = Mdot1 r, Mdot2 = Mdot2 r, Mdot_bin = Mdot_bin r,
                 a0 = G * M_bin r / c ^ 2
                        * (5 / (128 * pi * eta r * 4 * Notm)) powr (- 2 / 5)\<rparr>)"

text \<open>What \<open>plot_spectrum\<close> hands to the plot, and what it printed on the way.\<close>

record plot_data =
  printed :: "string list"
  nu :: "real list"
  Lnu1 :: "real list"
  Lnu2 :: "real list"
  Lnu3 :: "real list"
  Lnutot :: "real list"

text \<open>numpy's elementwise sum and product of two arrays, and a scalar times an array.\<close>

definition array_add :: "real list \<Rightarrow> real list \<Rightarrow> real list" where
  "array_add xs ys = map (\<lambda>(x, y). x + y) (zip xs ys)"

definition array_mul :: "real list \<Rightarrow> real list \<Rightarrow> real list" where
  "array_mul xs ys = map (\<lambda>(x, y). x * y) (zip xs ys)"

definition scalar_mul :: "real \<Rightarrow> real list \<Rightarrow> real list" where
  "scalar_mul a xs = map (\<lambda>x. a * x) xs"

text \<open>
  \<open>plot_spectrum\<close> up to the figure. The three calls of \<open>disk_spectrum\<close> run in order; an
  exception of one ends the function, and a call that runs forever leaves no result.
  For the outer disk \<open>R0\<close> is a numpy float, for which \<open>Tstar\<close> would yield nan where it
  raises for a Python float. That never shows: when the loop of the outer disk is
  entered, \<open>R0\<close> is positive and \<open>M * Mdot\<close> is a square (lemma \<open>outer_disk_Tstar\<close>).
\<close>

definition plot_spectrum :: "real \<Rightarrow> real \<Rightarrow> real \<Rightarrow> real \<Rightarrow> (error + plot_data) option" where
  "plot_spectrum M q pref_acc Notm =
     (case plot_spectrum_locals M q pref_acc Notm of
        Inl e \<Rightarrow> Some (Inl e)
      | Inr v \<Rightarrow>
         (case HillR q of
            Inl e \<Rightarrow> Some (Inl e)
          | Inr hill \<Rightarrow>
             (case disk_spectrum (M1 v) (Mdot1 v) (Risco (M1 v)) (a0 v - hill * a0 v) 0.001 of
                None \<Rightarrow> None
              | Some (Inl e) \<Rightarrow> Some (Inl e)
              | Some (Inr (out1, nu_v1, Inu1)) \<Rightarrow>
                 (case disk_spectrum (M2 v) (Mdot2 v) (Risco (M2 v)) (hill * a0 v) 0.001 of
                    None \<Rightarrow> None
                  | Some (Inl e) \<Rightarrow> Some (Inl e)
                  | Some (Inr (out2, nu_v2, Inu2)) \<Rightarrow>
                     (case disk_spectrum (M_bin v) (Mdot_bin v) (a0 v + hill * a0 v)
                             (1000000 * a0 v) 0.001 of
                        None \<Rightarrow> None
                      | Some (Inl e) \<Rightarrow> Some (Inl e)
                      | Some (Inr (out3, nu_v, Inu3)) \<Rightarrow>
                         (let nu = bin_centers nu_v;
                              Lnu1 = array_mul (scalar_mul pi Inu1) nu;
                              Lnu2 = array_mul (scalar_mul pi Inu2) nu;
                              Lnu3 = array_mul (scalar_mul pi Inu3) nu;
                              Lnutot = array_add (array_add Lnu1 Lnu2) Lnu3
                          in Some (Inr \<lparr>printed = out1 @ out2 @ out3, nu = nu,
                                        Lnu1 = Lnu1, Lnu2 = Lnu2, Lnu3 = Lnu3,
                                        Lnutot = Lnutot\<rparr>)))))))"


section \<open>Properties\<close>

subsection \<open>Rounding to binary64\<close>

text \<open>
  A sum \<open>1 + d\<close> with \<open>0 \<le> d \<le> 2^-53\<close> rounds to 1, a tie going to the even
  significand; with \<open>d > 2^-53\<close> it rounds to \<open>1 + 2^-52\<close> at least.
\<close>

lemma round_half_even_ge_floor: "\<lfloor>y\<rfloor> \<le> round_half_even y"
  by (simp add: round_half_even_def Let_def)

lemma round_half_even_lower:
  assumes "of_int m - 1 / 2 < y"
  shows "m \<le> round_half_even y"
proof (cases "m \<le> \<lfloor>y\<rfloor>")
  case True
  then show ?thesis using round_half_even_ge_floor [of y] by simp
next
  case False
  then have "\<lfloor>y\<rfloor> \<le> m - 1" by simp
  moreover have "m - 1 \<le> \<lfloor>y\<rfloor>" using assms by (simp add: le_floor_iff)
  ultimately have n: "\<lfloor>y\<rfloor> = m - 1" by simp
  then have "1 / 2 < y - of_int \<lfloor>y\<rfloor>" using assms by simp
  then show ?thesis by (simp add: round_half_even_def Let_def n)
qed

lemma round_half_even_upper:
  assumes "y < of_int m + 1 / 2"
  shows "round_half_even y \<le> m"
proof (cases "\<lfloor>y\<rfloor> < m")
  case True
  then show ?thesis by (simp add: round_half_even_def Let_def)
next
  case False
  then have "m \<le> \<lfloor>y\<rfloor>" by simp
  moreover have "\<lfloor>y\<rfloor> \<le> m" using assms by (simp add: floor_le_iff)
  ultimately have n: "\<lfloor>y\<rfloor> = m" by simp
  then have "y - of_int \<lfloor>y\<rfloor> < 1 / 2" using assms by simp
  then show ?thesis by (simp add: round_half_even_def Let_def n)
qed

lemma round_half_even_tie:
  assumes "even m"
  shows "round_half_even (of_int m + 1 / 2) = m"
proof -
  have "\<lfloor>of_int m + 1 / 2 :: real\<rfloor> = m" by (simp add: floor_eq_iff)
  then show ?thesis using assms by (simp add: round_half_even_def Let_def)
qed

lemma round_half_even_near:
  assumes "of_int m - 1 / 2 < y" and "y < of_int m + 1 / 2"
  shows "round_half_even y = m"
  using round_half_even_lower [OF assms(1)] round_half_even_upper [OF assms(2)] by simp

lemma floor_log2_unit:
  assumes "1 \<le> x" and "x < 2"
  shows "\<lfloor>log 2 \<bar>x\<bar>\<rfloor> = 0"
proof -
  have "0 \<le> log 2 x" using assms by simp
  moreover have "log 2 x < 1" using assms by simp
  ultimately show ?thesis using assms by (simp add: floor_eq_iff)
qed

lemma binary64_unit:
  assumes "1 \<le> x" and "x < 2"
  shows "binary64 x = of_int (round_half_even (x * 2 ^ 52)) / 2 ^ 52"
proof -
  have p: "2 powr (- 52 :: real) = 1 / 2 ^ 52"
    by (simp add: powr_minus_divide)
  from assms have "x \<noteq> 0" by simp
  then show ?thesis
    by (simp add: binary64_def floor_log2_unit [OF assms] p)
qed

lemma binary64_absorbs:
  assumes "0 \<le> d" and "d \<le> 1 / 2 ^ 53"
  shows "binary64 (1 + d) = 1"
proof -
  have x: "1 \<le> 1 + d" "1 + d < 2"
    using assms by (simp_all add: field_simps)
  have t: "d * 2 ^ 52 \<le> 1 / 2" using assms(2) by (simp add: field_simps)
  have y: "(1 + d) * 2 ^ 52 = of_int (2 ^ 52) + d * 2 ^ 52" by (simp add: algebra_simps)
  have "round_half_even ((1 + d) * 2 ^ 52) = 2 ^ 52"
  proof (cases "d * 2 ^ 52 = 1 / 2")
    case True
    have "round_half_even (of_int (2 ^ 52) + 1 / 2) = 2 ^ 52"
      by (rule round_half_even_tie) simp
    then show ?thesis unfolding y True .
  next
    case False
    with t have "d * 2 ^ 52 < 1 / 2" by simp
    moreover have "0 \<le> d * 2 ^ 52" using assms(1) by simp
    ultimately show ?thesis unfolding y by (intro round_half_even_near) simp_all
  qed
  then show ?thesis by (simp add: binary64_unit [OF x])
qed

lemma round_half_even_ge: "y - 1 / 2 \<le> of_int (round_half_even y)"
proof -
  have f: "y < of_int \<lfloor>y\<rfloor> + 1" "of_int \<lfloor>y\<rfloor> \<le> y" by linarith+
  consider "y - of_int \<lfloor>y\<rfloor> < 1 / 2" | "1 / 2 < y - of_int \<lfloor>y\<rfloor>"
    | "y - of_int \<lfloor>y\<rfloor> = 1 / 2" by linarith
  then show ?thesis
  proof cases
    case 1
    then have "round_half_even y = \<lfloor>y\<rfloor>" by (simp add: round_half_even_def Let_def)
    with 1 show ?thesis by simp
  next
    case 2
    then have "round_half_even y = \<lfloor>y\<rfloor> + 1" by (simp add: round_half_even_def Let_def)
    moreover have "y - 1 / 2 \<le> of_int \<lfloor>y\<rfloor> + 1" using f by linarith
    ultimately show ?thesis by simp
  next
    case 3
    have "\<lfloor>y\<rfloor> \<le> round_half_even y" by (rule round_half_even_ge_floor)
    then have "(of_int \<lfloor>y\<rfloor> :: real) \<le> of_int (round_half_even y)"
      by (simp only: of_int_le_iff)
    with 3 show ?thesis by simp
  qed
qed

lemma binary64_ge_two:
  assumes "2 \<le> x"
  shows "2 \<le> binary64 x"
proof -
  define e where "e = \<lfloor>log 2 \<bar>x\<bar>\<rfloor>"
  from assms have x: "0 < x" "\<bar>x\<bar> = x" by simp_all
  have "1 \<le> log 2 x" using assms by (simp add: le_log_iff)
  then have e1: "1 \<le> e" unfolding e_def x by (simp add: le_floor_iff)
  have "of_int e \<le> log 2 x" unfolding e_def x by simp
  then have pe: "2 powr (of_int e) \<le> x" using x by (simp add: le_log_iff)
  have s: "0 < 2 powr (of_int e - 52 :: real)" by simp
  have "2 powr (of_int e) / 2 powr (of_int e - 52) \<le> x / 2 powr (of_int e - 52)"
    using pe s by (simp add: divide_right_mono)
  moreover have "2 powr (of_int e) / 2 powr (of_int e - 52) = (2 powr 52 :: real)"
    by (simp add: powr_diff [symmetric])
  moreover have "(2 powr 52 :: real) = of_int (2 ^ 52)" by (simp add: powr_numeral)
  ultimately have "of_int (2 ^ 52) \<le> x / 2 powr (of_int e - 52)" by simp
  then have "2 ^ 52 \<le> \<lfloor>x / 2 powr (of_int e - 52)\<rfloor>" by (simp only: le_floor_iff)
  also have "\<dots> \<le> round_half_even (x / 2 powr (of_int e - 52))"
    by (rule round_half_even_ge_floor)
  finally have "(of_int (2 ^ 52) :: real)
      \<le> of_int (round_half_even (x / 2 powr (of_int e - 52)))"
    by (simp only: of_int_le_iff)
  then have r: "(2 ^ 52 :: real) \<le> of_int (round_half_even (x / 2 powr (of_int e - 52)))"
    by simp
  have m: "(2 ^ 52 :: real) * 2 powr (of_int e - 52)
      \<le> of_int (round_half_even (x / 2 powr (of_int e - 52))) * 2 powr (of_int e - 52)"
    using r s by (intro mult_right_mono) simp_all
  have q: "(2 ^ 52 :: real) * 2 powr (of_int e - 52) = 2 powr (of_int e)"
  proof -
    have "(2 ^ 52 :: real) = 2 powr 52" by (simp add: powr_numeral)
    then have "(2 ^ 52 :: real) * 2 powr (of_int e - 52) = 2 powr 52 * 2 powr (of_int e - 52)"
      by (rule arg_cong)
    also have "\<dots> = 2 powr (52 + (of_int e - 52))" by (rule powr_add [symmetric])
    also have "\<dots> = 2 powr (of_int e)" by simp
    finally show ?thesis .
  qed
  have "(2 :: real) powr 1 \<le> 2 powr (of_int e)"
    using e1 by (intro powr_mono) simp_all
  then have "(2 :: real) \<le> 2 powr (of_int e)" by simp
  also have "\<dots> \<le> of_int (round_half_even (x / 2 powr (of_int e - 52)))
      * 2 powr (of_int e - 52)"
    using m unfolding q .
  finally have "(2 :: real) \<le> of_int (round_half_even (x / 2 powr (of_int e - 52)))
      * 2 powr (of_int e - 52)" .
  moreover from x have "x \<noteq> 0" by simp
  ultimately show ?thesis by (simp add: binary64_def e_def [symmetric] Let_def)
qed

lemma binary64_exceeds:
  assumes "1 / 2 ^ 53 < d"
  shows "1 + 1 / 2 ^ 52 \<le> binary64 (1 + d)"
proof (cases "1 + d < 2")
  case True
  from assms have d: "0 < d" by (rule less_trans [rotated]) simp
  with True have x: "1 \<le> 1 + d" "1 + d < 2" by simp_all
  have "1 / 2 < d * 2 ^ 52" using assms by (simp add: field_simps)
  then have "of_int (2 ^ 52 + 1) - 1 / 2 < (1 + d) * 2 ^ 52" by (simp add: algebra_simps)
  then have "2 ^ 52 + 1 \<le> round_half_even ((1 + d) * 2 ^ 52)"
    by (rule round_half_even_lower)
  then have "(of_int (2 ^ 52 + 1) :: real) \<le> of_int (round_half_even ((1 + d) * 2 ^ 52))"
    by (simp only: of_int_le_iff)
  then have "(2 ^ 52 + 1 :: real) \<le> of_int (round_half_even ((1 + d) * 2 ^ 52))"
    by simp
  then have "(2 ^ 52 + 1) / 2 ^ 52 \<le> binary64 (1 + d)"
    unfolding binary64_unit [OF x] by (simp add: divide_right_mono)
  then show ?thesis by (simp add: field_simps)
next
  case False
  then have "2 \<le> binary64 (1 + d)" by (intro binary64_ge_two) simp
  then show ?thesis by (rule order_trans [rotated]) simp
qed

lemma binary64_sum_ge_one:
  assumes "0 \<le> d"
  shows "1 \<le> binary64 (1 + d)"
proof (cases "d \<le> 1 / 2 ^ 53")
  case True
  with assms show ?thesis by (simp add: binary64_absorbs)
next
  case False
  then have "1 + 1 / 2 ^ 52 \<le> binary64 (1 + d)" by (intro binary64_exceeds) simp
  then show ?thesis by (rule order_trans [rotated]) simp
qed

lemma binary64_sum_lower:
  assumes "0 \<le> d" and "d \<le> 1"
  shows "1 + d - 1 / 2 ^ 53 \<le> binary64 (1 + d)"
proof (cases "d < 1")
  case True
  with assms have x: "1 \<le> 1 + d" "1 + d < 2" by simp_all
  have "(1 + d) * 2 ^ 52 - 1 / 2 \<le> of_int (round_half_even ((1 + d) * 2 ^ 52))"
    by (rule round_half_even_ge)
  then have "((1 + d) * 2 ^ 52 - 1 / 2) / 2 ^ 52 \<le> binary64 (1 + d)"
    unfolding binary64_unit [OF x] by (simp add: divide_right_mono)
  then show ?thesis by (simp add: field_simps)
next
  case False
  with assms have "d = 1" by simp
  then have "2 \<le> binary64 (1 + d)" by (intro binary64_ge_two) simp
  with \<open>d = 1\<close> show ?thesis by simp
qed

subsection \<open>Constants\<close>

lemma Msun_pos: "0 < Msun"
  by (simp add: Msun_def)

lemma tsal_pos: "0 < tsal"
  by (simp add: tsal_def year_def)

lemma share_sum: "1 + y \<noteq> 0 \<Longrightarrow> x / (1 + y) + x / (1 + y) * y = (x::real)"
proof -
  assume nz: "1 + y \<noteq> 0"
  have "a + a * y = a * (1 + y)" for a :: real
    by (simp add: distrib_left)
  then have "x / (1 + y) + x / (1 + y) * y = x / (1 + y) * (1 + y)" .
  with nz show ?thesis by simp
qed

subsection \<open>Masses and accretion rates\<close>

text \<open>
  C8. For a total mass \<open>M > 0\<close> and a mass ratio \<open>q > 0\<close> the first assignments of
  \<open>plot_spectrum\<close> raise nothing, and the masses they derive are \<open>M1 = M / (1 + q)\<close> and
  \<open>M2 = q * M1\<close>, which add up to the total mass \<open>M\<close> (in grams).
\<close>

theorem mass_conservation:
  assumes "0 < M" and "0 < q"
  shows "\<exists>m. plot_spectrum_masses M q = Inr m \<and> M_bin m = M * Msun
           \<and> M1 m = M_bin m / (1 + q) \<and> M2 m = q * M1 m \<and> M1 m + M2 m = M_bin m"
proof -
  from \<open>0 < q\<close> have nz: "1 + q \<noteq> 0" by simp
  have "M * Msun / (1 + q) + M * Msun / (1 + q) * q = M * Msun"
    using nz by (rule share_sum)
  with nz show ?thesis
    by (simp add: plot_spectrum_masses_def Let_def)
qed

theorem mass_conservation_witness:
  "(0::real) < 3 \<and> (0::real) < 1 / 2
     \<and> (\<exists>m. plot_spectrum_masses 3 (1 / 2) = Inr m \<and> M1 m = 2 * Msun \<and> M2 m = Msun
             \<and> M1 m + M2 m = 3 * Msun)"
  using mass_conservation [of 3 "1 / 2"]
  by (auto simp: plot_spectrum_masses_def Let_def)

text \<open>
  C2. For every mass ratio \<open>q > 0\<close> and every preferential accretion factor \<open>p\<close> of the
  interface (\<open>p \<ge> 1\<close>; any \<open>p\<close> other than \<open>-1\<close> will do), the Eddington fractions are
  \<open>(1 + q) / (1 + p)\<close> for the primary and \<open>p * (1 + q) / ((1 + p) * q)\<close> for the
  secondary, and the accretion rates of the two black holes, \<open>Mdot_acc M1 edd_frac_1\<close>
  and \<open>Mdot_acc M2 edd_frac_2\<close> with \<open>M1 = M / (1 + q)\<close> and \<open>M2 = q * M1\<close>, add up to
  the rate of the binary, \<open>Mdot_acc M 1\<close>.
\<close>

theorem accretion_split:
  assumes "0 < q" and "pref_acc \<noteq> - 1"
  shows "\<exists>r. plot_spectrum_rates M q pref_acc = Inr r
           \<and> M1 r = M_bin r / (1 + q) \<and> M2 r = q * M1 r
           \<and> edd_frac_1 r = (1 + q) / (1 + pref_acc)
           \<and> edd_frac_2 r = pref_acc * (1 + q) / ((1 + pref_acc) * q)
           \<and> Mdot1 r = Mdot_acc (M1 r) (edd_frac_1 r)
           \<and> Mdot2 r = Mdot_acc (M2 r) (edd_frac_2 r)
           \<and> Mdot_bin r = Mdot_acc (M_bin r) 1
           \<and> Mdot1 r + Mdot2 r = Mdot_bin r"
proof -
  from assms have nz: "1 + q \<noteq> 0" "q \<noteq> 0" "1 + pref_acc \<noteq> 0" by auto
  have sum: "(1 + q) / (1 + pref_acc) * (M * Msun / (1 + q)) / tsal
      + pref_acc * ((1 + q) / (1 + pref_acc)) / q * (M * Msun / (1 + q) * q) / tsal
      = 1 * (M * Msun) / tsal"
  proof -
    have e1: "(1 + q) / (1 + pref_acc) * (M * Msun / (1 + q)) = M * Msun / (1 + pref_acc)"
      using nz by simp
    have e2: "pref_acc * ((1 + q) / (1 + pref_acc)) / q * (M * Msun / (1 + q) * q)
        = pref_acc * (M * Msun / (1 + pref_acc))"
      using nz by simp
    have "M * Msun / (1 + pref_acc) + M * Msun / (1 + pref_acc) * pref_acc = M * Msun"
      using nz(3) by (rule share_sum)
    then have "M * Msun / (1 + pref_acc) + pref_acc * (M * Msun / (1 + pref_acc)) = M * Msun"
      by (simp only: mult.commute)
    then show ?thesis
      unfolding e1 e2 by (simp only: add_divide_distrib [symmetric] mult_1)
  qed
  show ?thesis
    using nz sum
    by (simp add: plot_spectrum_rates_def plot_spectrum_masses_def Let_def Mdot_acc_def)
qed

theorem accretion_split_witness:
  "(0::real) < 1 / 2 \<and> (3::real) \<noteq> - 1
     \<and> (\<exists>r. plot_spectrum_rates 1 (1 / 2) 3 = Inr r \<and> edd_frac_1 r = 3 / 8
             \<and> edd_frac_2 r = 9 / 4 \<and> Mdot1 r + Mdot2 r = Mdot_acc Msun 1)"
  using accretion_split [of "1 / 2" 3 1]
  by (auto simp: plot_spectrum_rates_def plot_spectrum_masses_def Let_def)

subsection \<open>Hill radius\<close>

lemma ln_one_plus_lower:
  assumes "0 < a" and "a \<le> 1"
  shows "a / 2 \<le> ln (1 + a :: real)"
proof -
  have "ln (inverse (1 + a)) \<le> inverse (1 + a) - 1"
    by (rule ln_le_minus_one) (use assms in simp)
  then have "1 - inverse (1 + a) \<le> ln (1 + a)"
    using assms by (simp add: ln_inverse)
  moreover have "1 - inverse (1 + a) = a / (1 + a)"
    using assms by (simp add: field_simps)
  moreover have "a / 2 \<le> a / (1 + a)"
    using assms by (intro divide_left_mono) simp_all
  ultimately show ?thesis by linarith
qed

text \<open>
  Over the real numbers the formula lies strictly between 0 and 0.5 on \<open>(0, 1]\<close>.
\<close>

lemma Eggleton_Eqn2_bounds:
  assumes "0 < q" and "q \<le> 1"
  shows "0 < Eggleton_Eqn2 q" and "Eggleton_Eqn2 q < 1 / 2"
proof -
  define a where "a = q powr (1 / 3)"
  define b where "b = q powr (2 / 3)"
  have a: "0 < a" "a \<le> 1"
    using assms by (simp_all add: a_def powr_le1)
  have b: "b = a * a"
    unfolding a_def b_def using assms by (simp add: powr_add [symmetric])
  have b_pos: "0 < b" using a b by simp
  have "b \<le> a" using a b by (simp add: mult_left_le)
  moreover have "a / 2 \<le> ln (1 + a)" using a by (rule ln_one_plus_lower)
  ultimately have L: "b / 2 \<le> ln (1 + a)" by simp
  have den: "0 < 0.6 * b + ln (1 + a)" using L b_pos by simp
  have num: "0 < 0.49 * b" using b_pos by simp
  have "0.49 * b < 1 / 2 * (0.6 * b + ln (1 + a))"
    using L b_pos by simp
  then have "0.49 * b / (0.6 * b + ln (1 + a)) < 1 / 2"
    using den by (simp add: pos_divide_less_eq)
  moreover have "0 < 0.49 * b / (0.6 * b + ln (1 + a))"
    using num den by (rule divide_pos_pos)
  moreover have "Eggleton_Eqn2 q = 0.49 * b / (0.6 * b + ln (1 + a))"
    by (simp add: Eggleton_Eqn2_def a_def b_def)
  ultimately show "0 < Eggleton_Eqn2 q" and "Eggleton_Eqn2 q < 1 / 2" by simp_all
qed

text \<open>
  \<open>HillR\<close> stays between 0 and 0.5 as long as the cube root of \<open>q\<close> is more than
  \<open>2^-53\<close>, so that the sum \<open>1 + q ** (1 / 3)\<close> exceeds 1.
\<close>

lemma HillR_rounded_bounds:
  assumes "0 < q" and "q \<le> 1" and "1 / 2 ^ 53 < q powr (1 / 3)"
  shows "\<exists>f. HillR q = Inr f \<and> 0 < f \<and> f < 1 / 2"
proof -
  define a where "a = q powr (1 / 3)"
  define b where "b = q powr (2 / 3)"
  define s where "s = binary64 (1 + a)"
  note q = assms(1)
  have a: "1 / 2 ^ 53 < a" "0 < a" "a \<le> 1"
    using assms by (simp_all add: a_def powr_le1)
  have b: "b = a * a"
    unfolding a_def b_def using q by (simp add: powr_add [symmetric])
  have b_pos: "0 < b" using a b by simp
  have ba: "b \<le> a" using a b by (simp add: mult_left_le)
  have s1: "1 + 1 / 2 ^ 52 \<le> s"
    unfolding s_def using a(1) by (rule binary64_exceeds)
  have s2: "1 + a - 1 / 2 ^ 53 \<le> s"
    unfolding s_def by (rule binary64_sum_lower) (use a in simp_all)
  have L: "38 / 100 * b < ln s"
  proof (cases "1 / 2 ^ 50 \<le> a")
    case True
    then have "1 / 2 ^ 53 \<le> a / 8" by simp
    with s2 have le: "1 + 7 * a / 8 \<le> s" by simp
    have "7 * a / 8 / 2 \<le> ln (1 + 7 * a / 8)"
      by (rule ln_one_plus_lower) (use a in simp_all)
    also have "\<dots> \<le> ln s"
      using le a(2) by (subst ln_le_cancel_iff) simp_all
    finally have "7 * a / 16 \<le> ln s" by simp
    moreover have "38 / 100 * b < 7 * a / 16" using ba a(2) by simp
    ultimately show ?thesis by simp
  next
    case False
    then have small: "a < 1 / 2 ^ 50" by simp
    have "1 / 2 ^ 52 / 2 \<le> ln (1 + 1 / 2 ^ 52 :: real)"
      by (rule ln_one_plus_lower) simp_all
    also have "\<dots> \<le> ln s"
      using s1 by (subst ln_le_cancel_iff) simp_all
    finally have "1 / 2 ^ 53 \<le> ln s" by simp
    moreover have "b \<le> 1 / 2 ^ 50 * (1 / 2 ^ 50)"
      unfolding b using small a by (intro mult_mono) simp_all
    then have "38 / 100 * b < 1 / 2 ^ 53" by simp
    ultimately show ?thesis by simp
  qed
  have den: "0 < 0.6 * b + ln s" using L b_pos by simp
  have num: "0 < 0.49 * b" using b_pos by simp
  have "0.49 * b < 1 / 2 * (0.6 * b + ln s)"
    using L by simp
  then have "0.49 * b / (0.6 * b + ln s) < 1 / 2"
    using den by (simp add: pos_divide_less_eq)
  moreover have "0 < 0.49 * b / (0.6 * b + ln s)"
    using num den by (rule divide_pos_pos)
  moreover have "HillR q = Inr (0.49 * b / (0.6 * b + ln s))"
    using q by (simp add: HillR_def a_def b_def s_def)
  ultimately show ?thesis by blast
qed

text \<open>
  A cube root of at most \<open>2^-53\<close> is absorbed by the sum: the logarithm is that of 1.0
  and \<open>HillR\<close> returns \<open>0.49 / 0.6\<close>, whatever the Hill radius of \<open>q\<close> is.
\<close>

lemma HillR_absorbed:
  assumes "0 < q" and "q powr (1 / 3) \<le> 1 / 2 ^ 53"
  shows "HillR q = Inr (49 / 60)"
proof -
  have "binary64 (1 + q powr (1 / 3)) = 1"
    by (rule binary64_absorbs) (use assms in simp_all)
  moreover have "q powr (2 / 3) \<noteq> 0" using assms(1) by simp
  ultimately show ?thesis
    using assms(1) by (simp add: HillR_def)
qed

lemma cube_root_tiny: "(1 / 10 ^ 48 :: real) powr (1 / 3) = 1 / 10 ^ 16"
proof -
  have "(1 / 10 ^ 16 :: real) ^ 3 = 1 / 10 ^ 48"
    by (simp add: power3_eq_cube)
  moreover have "(1 / 10 ^ 16 :: real) powr 3 = (1 / 10 ^ 16) ^ 3"
    by (rule powr_numeral) simp
  ultimately have "(1 / 10 ^ 48 :: real) powr (1 / 3) = ((1 / 10 ^ 16) powr 3) powr (1 / 3)"
    by (simp only:)
  also have "\<dots> = (1 / 10 ^ 16 :: real) powr 1"
    unfolding powr_powr by simp
  finally show ?thesis by simp
qed

text \<open>
  C7. For every mass ratio \<open>q\<close> in \<open>(0, 1]\<close> the Hill radius fraction
  \<open>0.49 * q^(2/3) / (0.6 * q^(2/3) + ln (1 + q^(1/3)))\<close> lies strictly between 0 and
  0.5; so it does at \<open>q = 1e-48\<close>. There \<open>HillR\<close> returns \<open>0.49 / 0.6\<close>, which is more
  than 0.5: the cube root \<open>1e-16\<close> is less than \<open>2^-53\<close> and \<open>1 + q ** (1 / 3)\<close> is
  the float 1.0, whose logarithm is 0.
\<close>

theorem HillR_tiny_ratio:
  "HillR (1 / 10 ^ 48) = Inr (49 / 60) \<and> (1 / 2 :: real) < 49 / 60
     \<and> 0 < Eggleton_Eqn2 (1 / 10 ^ 48) \<and> Eggleton_Eqn2 (1 / 10 ^ 48) < 1 / 2"
proof -
  have "(1 / 10 ^ 48 :: real) powr (1 / 3) \<le> 1 / 2 ^ 53"
    unfolding cube_root_tiny by simp
  then have "HillR (1 / 10 ^ 48) = Inr (49 / 60)"
    by (intro HillR_absorbed) simp_all
  moreover have "0 < Eggleton_Eqn2 (1 / 10 ^ 48)"
    by (rule Eggleton_Eqn2_bounds) simp_all
  moreover have "Eggleton_Eqn2 (1 / 10 ^ 48) < 1 / 2"
    by (rule Eggleton_Eqn2_bounds) simp_all
  ultimately show ?thesis by simp
qed

subsection \<open>Temperature: where it is a real number\<close>

lemma G_pos: "0 < G"
  by (simp add: G_def)

lemma sb_pos: "0 < sb"
  by (simp add: sb_def)

lemma Tstar_cases:
  assumes "R0 \<noteq> 0"
  shows "Tstar R0 M Mdot =
    (if 3 * G * M * Mdot / (8 * pi * R0 ^ 3 * sb) < 0 then Inl ComplexValue
     else Inr ((3 * G * M * Mdot / (8 * pi * R0 ^ 3 * sb)) powr 0.25))"
  using assms sb_pos by (simp add: Tstar_def)

lemma pos_coeff: "0 < a \<Longrightarrow> a * x < 0 \<longleftrightarrow> x < (0::real)"
  by (auto simp: mult_less_0_iff)

lemma Tstar_quotient_split:
  "3 * G * M * Mdot / (8 * pi * R0 ^ 3 * sb) = 3 * G / (8 * pi * R0 ^ 3 * sb) * (M * Mdot)"
  by simp

lemma Tstar_quotient_sign:
  assumes "0 < R0"
  shows "3 * G * M * Mdot / (8 * pi * R0 ^ 3 * sb) < 0 \<longleftrightarrow> M * Mdot < 0"
proof -
  have "0 < 8 * pi * R0 ^ 3 * sb" using assms sb_pos by simp
  then have "0 < 3 * G / (8 * pi * R0 ^ 3 * sb)" using G_pos by simp
  then show ?thesis
    unfolding Tstar_quotient_split by (rule pos_coeff)
qed

lemma shape_nonneg:
  assumes "0 < x" and "x \<le> 1"
  shows "\<not> (x < 0 \<or> x ^ 3 * (1 - sqrt x) < 0)"
proof -
  have "sqrt x \<le> 1" using assms by simp
  then have "0 \<le> 1 - sqrt x" by simp
  moreover have "0 \<le> x ^ 3" using assms by simp
  ultimately have "0 \<le> x ^ 3 * (1 - sqrt x)" by (rule mult_nonneg_nonneg [rotated])
  with assms show ?thesis by (simp add: not_less)
qed

lemma disk_temperature_real:
  assumes "R0 \<noteq> 0" and "0 < R0 / R" and "R0 / R \<le> 1"
    and "\<not> 3 * G * M * Mdot / (8 * pi * R0 ^ 3 * sb) < 0"
  shows "disk_temperature R R0 M Mdot =
    Inr ((3 * G * M * Mdot / (8 * pi * R0 ^ 3 * sb)) powr 0.25
          * ((R0 / R) ^ 3 * (1 - sqrt (R0 / R))) powr 0.25)"
proof -
  from assms(2) have "R \<noteq> 0" by auto
  with shape_nonneg [OF assms(2,3)] assms(4) show ?thesis
    by (simp add: disk_temperature_def Tstar_cases [OF assms(1)])
qed


subsection \<open>The radial loop\<close>

lemma len_grid: "length (logspace 12 19 999) = 999"
  by (simp add: logspace_def)

lemma len_centers: "length (bin_centers (logspace 12 19 999)) = 998"
  by (simp add: bin_centers_def logspace_def)

lemma radial_loop_exit:
  "\<not> R < Rout \<Longrightarrow> radial_loop M Mdot R0 Rout delta nu_c R Inu = Some (Inr (R, Inu))"
  by (subst radial_loop.simps) simp

lemma radial_loop_step:
  "R < Rout \<Longrightarrow> disk_temperature R R0 M Mdot = Inr T \<Longrightarrow>
     radial_loop M Mdot R0 Rout delta nu_c R Inu =
     radial_loop M Mdot R0 Rout delta nu_c (R * binary64 (1 + delta))
       (map (\<lambda>(I, nu). I + 2 * pi * R * (R * delta) * planck_spectrum T nu) (zip Inu nu_c))"
  by (subst radial_loop.simps) simp


lemma radial_loop_length_aux:
  assumes "radial_loop M Mdot R0 Rout delta nu_c R Inu = Some y"
  shows "length Inu = length nu_c \<longrightarrow> (\<forall>R' I. y = Inr (R', I) \<longrightarrow> length I = length nu_c)"
proof (rule radial_loop.raw_induct
    [where P = "\<lambda>M Mdot R0 Rout delta nu_c R Inu y.
        length Inu = length nu_c \<longrightarrow> (\<forall>R' I. y = Inr (R', I) \<longrightarrow> length I = length nu_c)",
      OF _ assms], goal_cases)
  case (1 loop M Mdot R0 Rout delta nu_c R Inu y)
  show ?case
  proof (cases "R < Rout")
    case False
    with 1(2) show ?thesis by auto
  next
    case True
    show ?thesis
    proof (cases "disk_temperature R R0 M Mdot")
      case (Inl e)
      with True 1(2) show ?thesis by (cases e) auto
    next
      case (Inr T)
      with True 1(2) have "loop M Mdot R0 Rout delta nu_c (R * binary64 (1 + delta))
        (map (\<lambda>(I, nu). I + 2 * pi * R * (R * delta) * planck_spectrum T nu) (zip Inu nu_c)) = Some y"
        by simp
      from 1(1) [OF this]
      have IH: "length (map (\<lambda>(I, nu). I + 2 * pi * R * (R * delta) * planck_spectrum T nu)
          (zip Inu nu_c)) = length nu_c
          \<longrightarrow> (\<forall>R' I. y = Inr (R', I) \<longrightarrow> length I = length nu_c)" .
      show ?thesis
      proof
        assume "length Inu = length nu_c"
        then have "length (map (\<lambda>(I, nu). I + 2 * pi * R * (R * delta) * planck_spectrum T nu)
          (zip Inu nu_c)) = length nu_c" by simp
        with IH show "\<forall>R' I. y = Inr (R', I) \<longrightarrow> length I = length nu_c" by (rule mp)
      qed
    qed
  qed
qed

lemma radial_loop_length:
  "radial_loop M Mdot R0 Rout delta nu_c R Inu = Some (Inr (R', I)) \<Longrightarrow> length Inu = length nu_c
     \<Longrightarrow> length I = length nu_c"
  using radial_loop_length_aux by blast

lemma disk_spectrum_no_loop:
  assumes "\<not> R0 * 1.0001 < Rout"
  shows "disk_spectrum M Mdot R0 Rout delta =
    Some (Inr (if Rout < R0 then [''Warning: Rout < R1, the spectrum is zero''] else [],
               logspace 12 19 999, replicate 998 0))"
  using assms
  by (simp add: disk_spectrum_def Let_def radial_loop_exit zeros_like_def len_centers)

lemma disk_spectrum_loop:
  "disk_spectrum M Mdot R0 Rout delta =
     map_option (map_sum id (\<lambda>(R', Inu').
       (if Rout < R0 then [''Warning: Rout < R1, the spectrum is zero''] else [],
        logspace 12 19 999, Inu')))
       (radial_loop M Mdot R0 Rout delta (bin_centers (logspace 12 19 999))
          (R0 * 1.0001) (zeros_like (bin_centers (logspace 12 19 999))))"
  by (simp add: disk_spectrum_def Let_def)

lemma disk_spectrum_result:
  assumes "disk_spectrum M Mdot R0 Rout delta = Some (Inr (out, nu_v, Inu))"
  shows "nu_v = logspace 12 19 999" and "length Inu = 998"
    and "out = (if Rout < R0 then [''Warning: Rout < R1, the spectrum is zero''] else [])"
proof -
  define L where "L = radial_loop M Mdot R0 Rout delta (bin_centers (logspace 12 19 999))
    (R0 * 1.0001) (zeros_like (bin_centers (logspace 12 19 999)))"
  have ds: "disk_spectrum M Mdot R0 Rout delta = map_option (map_sum id (\<lambda>(R', Inu').
      (if Rout < R0 then [''Warning: Rout < R1, the spectrum is zero''] else [],
       logspace 12 19 999, Inu'))) L"
    unfolding L_def by (rule disk_spectrum_loop)
  from assms obtain z where z: "L = Some z"
    unfolding ds by (cases L) simp_all
  from assms z obtain R' I where I: "z = Inr (R', I)"
    unfolding ds by (cases z) auto
  from assms have eq: "out = (if Rout < R0 then [''Warning: Rout < R1, the spectrum is zero''] else [])"
    "nu_v = logspace 12 19 999" "Inu = I"
    unfolding ds z I by simp_all
  from z I have "radial_loop M Mdot R0 Rout delta (bin_centers (logspace 12 19 999))
    (R0 * 1.0001) (zeros_like (bin_centers (logspace 12 19 999))) = Some (Inr (R', I))"
    by (simp add: L_def)
  then have "length I = length (bin_centers (logspace 12 19 999))"
    by (rule radial_loop_length) (simp add: zeros_like_def)
  with eq show "nu_v = logspace 12 19 999" and "length Inu = 998"
    and "out = (if Rout < R0 then [''Warning: Rout < R1, the spectrum is zero''] else [])"
    by (simp_all add: len_centers)
qed

text \<open>
  Inside a disk with a positive inner radius the temperature is a real number when
  \<open>M * Mdot\<close> is not negative, and a complex one otherwise.
\<close>

lemma loop_temperature_real:
  assumes "0 < R0" and "R0 \<le> R" and "0 \<le> M * Mdot"
  shows "\<exists>T. disk_temperature R R0 M Mdot = Inr T"
proof -
  from assms(1,2) have R: "0 < R" by simp
  have ratio: "0 < R0 / R" "R0 / R \<le> 1"
    using assms(1,2) R by simp_all
  have nz: "R0 \<noteq> 0" "R \<noteq> 0" using assms(1) R by simp_all
  from assms(3) have "\<not> M * Mdot < 0" by simp
  then have "\<not> 3 * G * M * Mdot / (8 * pi * R0 ^ 3 * sb) < 0"
    unfolding Tstar_quotient_sign [OF assms(1)] .
  with nz ratio show ?thesis
    using disk_temperature_real by blast
qed


text \<open>
  With a positive inner radius and a factor \<open>1.0 + delta\<close> of at least 1, a loop whose
  variable is below the outer radius for \<open>n\<close> rounds and no longer after them ends there,
  with \<open>R\<close> multiplied \<open>n\<close> times.
\<close>

lemma radial_loop_runs:
  assumes "0 < R0" and "1 \<le> binary64 (1 + delta)" and "0 \<le> M * Mdot"
  shows "R0 \<le> R \<Longrightarrow> Rout \<le> R * binary64 (1 + delta) ^ n
    \<Longrightarrow> (\<forall>m<n. R * binary64 (1 + delta) ^ m < Rout)
    \<Longrightarrow> \<exists>Inu'. radial_loop M Mdot R0 Rout delta nu_c R Inu
          = Some (Inr (R * binary64 (1 + delta) ^ n, Inu'))"
proof (induction n arbitrary: R Inu)
  case 0
  then have "\<not> R < Rout" by simp
  then show ?case by (simp add: radial_loop_exit)
next
  case (Suc n)
  from Suc.prems(3) have "R * binary64 (1 + delta) ^ 0 < Rout" by blast
  then have less: "R < Rout" by simp
  from assms(1) Suc.prems(1) have R: "0 < R" by simp
  from loop_temperature_real [OF assms(1) Suc.prems(1) assms(3)]
  obtain T where T: "disk_temperature R R0 M Mdot = Inr T" by blast
  have "R * 1 \<le> R * binary64 (1 + delta)"
    using R assms(2) by (intro mult_left_mono) simp_all
  with Suc.prems(1) have 1: "R0 \<le> R * binary64 (1 + delta)" by simp
  have 2: "Rout \<le> R * binary64 (1 + delta) * binary64 (1 + delta) ^ n"
    using Suc.prems(2) by (simp add: mult.assoc)
  have 3: "\<forall>m<n. R * binary64 (1 + delta) * binary64 (1 + delta) ^ m < Rout"
  proof (intro allI impI)
    fix m assume "m < n"
    then have "Suc m < Suc n" by simp
    with Suc.prems(3) have "R * binary64 (1 + delta) ^ Suc m < Rout" by blast
    then show "R * binary64 (1 + delta) * binary64 (1 + delta) ^ m < Rout"
      by (simp add: mult.assoc)
  qed
  from Suc.IH [OF 1 2 3] obtain Inu' where
    "radial_loop M Mdot R0 Rout delta nu_c (R * binary64 (1 + delta))
       (map (\<lambda>(I, nu). I + 2 * pi * R * (R * delta) * planck_spectrum T nu) (zip Inu nu_c))
     = Some (Inr (R * binary64 (1 + delta) * binary64 (1 + delta) ^ n, Inu'))"
    by blast
  then have "radial_loop M Mdot R0 Rout delta nu_c R Inu
      = Some (Inr (R * binary64 (1 + delta) ^ Suc n, Inu'))"
    unfolding radial_loop_step [OF less T] by (simp add: mult.assoc)
  then show ?case by blast
qed

text \<open>A geometric sequence with a factor above 1 passes any bound, at a first index.\<close>

lemma steps_exist:
  assumes "0 < R" and "1 < (f::real)"
  shows "\<exists>n. Rout \<le> R * f ^ n \<and> (\<forall>m<n. R * f ^ m < Rout)"
proof -
  from assms(2) obtain N where "Rout / R < f ^ N"
    using real_arch_pow by blast
  with assms(1) have N: "Rout \<le> R * f ^ N"
    by (simp add: pos_divide_less_eq mult.commute)
  define n where "n = (LEAST n. Rout \<le> R * f ^ n)"
  have "Rout \<le> R * f ^ n"
    unfolding n_def using N by (rule LeastI)
  moreover have "\<forall>m<n. R * f ^ m < Rout"
  proof (intro allI impI)
    fix m assume "m < n"
    then have "\<not> Rout \<le> R * f ^ m"
      unfolding n_def by (rule not_less_Least)
    then show "R * f ^ m < Rout" by simp
  qed
  ultimately show ?thesis by blast
qed



lemma step_exceeds: "1 / 2 ^ 53 < delta \<Longrightarrow> 1 < binary64 (1 + delta)"
proof -
  assume "1 / 2 ^ 53 < delta"
  then have "1 + 1 / 2 ^ 52 \<le> binary64 (1 + delta)" by (rule binary64_exceeds)
  moreover have "(1::real) < 1 + 1 / 2 ^ 52" by simp
  ultimately show ?thesis by (rule less_le_trans [rotated])
qed

subsection \<open>Degenerate disks and termination\<close>

text \<open>
  C3. For every disk with \<open>Rout < R0\<close>, the inner radius not being negative (or, more
  generally, with \<open>Rout \<le> R0 * 1.0001\<close>), and any mass, accretion rate and step
  fraction, \<open>disk_spectrum\<close> raises nothing: it prints the warning and returns the
  grid with an all-zero spectrum of 998 bins.
\<close>

theorem zero_disk:
  assumes "Rout < R0" and "0 \<le> R0 \<or> Rout \<le> R0 * 1.0001"
  shows "disk_spectrum M Mdot R0 Rout delta =
    Some (Inr ([''Warning: Rout < R1, the spectrum is zero''], logspace 12 19 999,
               replicate 998 0))"
proof -
  have "\<not> R0 * 1.0001 < Rout"
  proof (cases "0 \<le> R0")
    case True
    then have "R0 * 1 \<le> R0 * 1.0001" by (intro mult_left_mono) simp_all
    with assms(1) show ?thesis by simp
  next
    case False
    with assms(2) show ?thesis by simp
  qed
  then show ?thesis
    using assms(1) by (simp add: disk_spectrum_no_loop)
qed

theorem zero_disk_witness:
  "(1::real) < 2 \<and> ((0::real) \<le> 2 \<or> (1::real) \<le> 2 * 1.0001)
     \<and> disk_spectrum 5 3 2 1 0.1 =
         Some (Inr ([''Warning: Rout < R1, the spectrum is zero''], logspace 12 19 999,
                    replicate 998 0))"
  using zero_disk [of 1 2 5 3 "0.1"] by simp

text \<open>
  C10. For every inner radius \<open>R0 > 0\<close> and every outer radius with
  \<open>R0 \<le> Rout < R0 * 1.0001\<close>, \<open>disk_spectrum\<close> returns the all-zero spectrum of 998
  bins and prints nothing: the loop body never runs, and the warning is only printed
  for \<open>Rout < R0\<close>.
\<close>

theorem silent_zero_band:
  assumes "0 < R0" and "R0 \<le> Rout" and "Rout < R0 * 1.0001"
  shows "disk_spectrum M Mdot R0 Rout delta =
    Some (Inr ([], logspace 12 19 999, replicate 998 0))"
  using assms by (simp add: disk_spectrum_no_loop)

theorem silent_zero_band_witness:
  "(0::real) < 1 \<and> (1::real) \<le> 1.00005 \<and> (1.00005::real) < 1 * 1.0001
     \<and> disk_spectrum 5 3 1 1.00005 0.1 = Some (Inr ([], logspace 12 19 999, replicate 998 0))"
  using silent_zero_band [of 1 "1.00005" 5 3 "0.1"] by simp




text \<open>
  A spectrum is what \<open>disk_spectrum\<close> returns for a positive inner radius, a step fraction
  above \<open>2^-53\<close> and a product \<open>M * Mdot\<close> that is not negative.
\<close>

lemma disk_spectrum_returns:
  assumes "0 < R0" and "1 / 2 ^ 53 < delta" and "0 \<le> M * Mdot"
  shows "\<exists>out nu_v Inu. disk_spectrum M Mdot R0 Rout delta = Some (Inr (out, nu_v, Inu))"
proof -
  have f: "1 < binary64 (1 + delta)" using assms(2) by (rule step_exceeds)
  then have f1: "1 \<le> binary64 (1 + delta)" by simp
  have "R0 * 1 \<le> R0 * 1.0001" using assms(1) by (intro mult_left_mono) simp_all
  then have R: "R0 \<le> R0 * 1.0001" by simp
  with assms(1) have pos: "0 < R0 * 1.0001" by simp
  from steps_exist [OF pos f] obtain n where
    n: "Rout \<le> R0 * 1.0001 * binary64 (1 + delta) ^ n"
       "\<forall>m<n. R0 * 1.0001 * binary64 (1 + delta) ^ m < Rout"
    by blast
  from radial_loop_runs [OF assms(1) f1 assms(3) R n]
  obtain Inu where "radial_loop M Mdot R0 Rout delta (bin_centers (logspace 12 19 999))
      (R0 * 1.0001) (zeros_like (bin_centers (logspace 12 19 999)))
    = Some (Inr (R0 * 1.0001 * binary64 (1 + delta) ^ n, Inu))"
    by blast
  then show ?thesis
    unfolding disk_spectrum_loop by simp
qed

subsection \<open>The frequency grid\<close>

lemma logspace_nth:
  "i < 999 \<Longrightarrow> logspace 12 19 999 ! i = 10 powr (12 + real i * (7 / 998))"
  by (simp add: logspace_def)

lemma bin_centers_nth:
  assumes "Suc i < length xs"
  shows "bin_centers xs ! i = (xs ! i + xs ! Suc i) / 2"
proof -
  from assms have "i < length (zip (tl xs) (butlast xs))" by simp
  then have "bin_centers xs ! i = 0.5 * (tl xs ! i + butlast xs ! i)"
    by (simp add: bin_centers_def)
  also have "tl xs ! i = xs ! Suc i" using assms by (simp add: nth_tl)
  also have "butlast xs ! i = xs ! i" using assms by (simp add: nth_butlast)
  finally show ?thesis by simp
qed

lemma length_bin_centers: "length (bin_centers xs) = length xs - 1"
  by (simp add: bin_centers_def)

lemma grid_first: "logspace 12 19 999 ! 0 = 10 ^ 12"
proof -
  have "logspace 12 19 999 ! 0 = 10 powr (12::real)" by (simp add: logspace_nth)
  also have "\<dots> = 10 ^ 12" by (simp add: powr_numeral)
  finally show ?thesis .
qed

lemma grid_last: "logspace 12 19 999 ! 998 = 10 ^ 19"
proof -
  have "logspace 12 19 999 ! 998 = 10 powr (12 + real 998 * (7 / 998))"
    by (rule logspace_nth) simp
  also have "12 + real 998 * (7 / 998) = (19::real)" by simp
  also have "10 powr (19::real) = 10 ^ 19" by (simp add: powr_numeral)
  finally show ?thesis .
qed

lemma grid_log: "i < 999 \<Longrightarrow> log 10 (logspace 12 19 999 ! i) = 12 + 7 * real i / 998"
  by (simp add: logspace_nth)

lemma grid_increasing:
  assumes "i < 998"
  shows "logspace 12 19 999 ! i < logspace 12 19 999 ! Suc i"
proof -
  from assms have i: "i < 999" and si: "Suc i < 999" by simp_all
  have "12 + real i * (7 / 998) < 12 + real (Suc i) * (7 / 998)" by simp
  then have "10 powr (12 + real i * (7 / 998)) < 10 powr (12 + real (Suc i) * (7 / 998))"
    by (simp only: powr_less_cancel_iff)
  then show ?thesis
    unfolding logspace_nth [OF i] logspace_nth [OF si] .
qed

subsection \<open>The local variables of the entry point\<close>

lemma c_pos: "0 < c"
  by (simp add: c_def)

lemma plot_spectrum_masses_eq:
  "1 + q \<noteq> 0 \<Longrightarrow> plot_spectrum_masses M q =
     Inr \<lparr>M_bin = M * Msun, M1 = M * Msun / (1 + q), M2 = M * Msun / (1 + q) * q\<rparr>"
  by (simp add: plot_spectrum_masses_def Let_def)

lemma plot_spectrum_rates_eq:
  assumes "1 + q \<noteq> 0" and "1 + pref_acc \<noteq> 0" and "q \<noteq> 0"
  shows "plot_spectrum_rates M q pref_acc =
     Inr \<lparr>M_bin = M * Msun, M1 = M * Msun / (1 + q), M2 = M * Msun / (1 + q) * q,
          eta = q / (1 + q) ^ 2,
          edd_frac_1 = (1 + q) / (1 + pref_acc),
          edd_frac_2 = pref_acc * ((1 + q) / (1 + pref_acc)) / q,
          Mdot1 = Mdot_acc (M * Msun / (1 + q)) ((1 + q) / (1 + pref_acc)),
          Mdot2 = Mdot_acc (M * Msun / (1 + q) * q) (pref_acc * ((1 + q) / (1 + pref_acc)) / q),
          Mdot_bin = Mdot_acc (M * Msun) 1\<rparr>"
  using assms by (simp add: plot_spectrum_rates_def plot_spectrum_masses_eq Let_def)

lemma plot_spectrum_rates_raise:
  assumes "1 + q = 0 \<or> 1 + pref_acc = 0 \<or> q = 0"
  shows "plot_spectrum_rates M q pref_acc = Inl ZeroDivisionError"
  using assms
  by (auto simp: plot_spectrum_rates_def plot_spectrum_masses_def Let_def)

lemma plot_spectrum_locals_raise:
  assumes "1 + q = 0 \<or> 1 + pref_acc = 0 \<or> q = 0 \<or> Notm = 0"
  shows "plot_spectrum_locals M q pref_acc Notm = Inl ZeroDivisionError"
proof (cases "1 + q = 0 \<or> 1 + pref_acc = 0 \<or> q = 0")
  case True
  then show ?thesis by (simp add: plot_spectrum_locals_def plot_spectrum_rates_raise)
next
  case False
  with assms have "Notm = 0" by simp
  with False show ?thesis
    by (simp add: plot_spectrum_locals_def plot_spectrum_rates_eq)
qed

lemma plot_spectrum_locals_eq:
  assumes "0 < q" and "1 + pref_acc \<noteq> 0" and "0 < Notm"
  shows "plot_spectrum_locals M q pref_acc Notm =
     Inr \<lparr>M_bin = M * Msun, M1 = M * Msun / (1 + q), M2 = M * Msun / (1 + q) * q,
          eta = q / (1 + q) ^ 2,
          edd_frac_1 = (1 + q) / (1 + pref_acc),
          edd_frac_2 = pref_acc * ((1 + q) / (1 + pref_acc)) / q,
          Mdot1 = Mdot_acc (M * Msun / (1 + q)) ((1 + q) / (1 + pref_acc)),
          Mdot2 = Mdot_acc (M * Msun / (1 + q) * q) (pref_acc * ((1 + q) / (1 + pref_acc)) / q),
          Mdot_bin = Mdot_acc (M * Msun) 1,
          a0 = G * (M * Msun) / c ^ 2
                 * (5 / (128 * pi * (q / (1 + q) ^ 2) * 4 * Notm)) powr (- 2 / 5)\<rparr>"
proof -
  from assms have nz: "1 + q \<noteq> 0" "q \<noteq> 0" by simp_all
  have eta: "0 < q / (1 + q) ^ 2" using assms(1) by simp
  have den: "0 < 128 * pi * (q / (1 + q) ^ 2) * 4 * Notm"
    by (intro mult_pos_pos eta assms(3)) simp_all
  then have "0 < 5 / (128 * pi * (q / (1 + q) ^ 2) * 4 * Notm)"
    by (intro divide_pos_pos) simp_all
  then have "\<not> 5 / (128 * pi * (q / (1 + q) ^ 2) * 4 * Notm) < 0"
    by (rule less_not_sym)
  moreover from den have "128 * pi * (q / (1 + q) ^ 2) * 4 * Notm \<noteq> 0"
    by (rule less_imp_neq [THEN not_sym])
  ultimately show ?thesis
    by (simp add: plot_spectrum_locals_def plot_spectrum_rates_eq [OF nz(1) assms(2) nz(2)])
qed

lemma HillR_less_one:
  assumes "0 < q" and "HillR q = Inr hill"
  shows "0 < hill" and "hill < 1"
proof -
  define b where "b = q powr (2 / 3)"
  define L where "L = ln (binary64 (1 + q powr (1 / 3)))"
  have "0 \<le> q powr (1 / 3)" by simp
  then have "1 \<le> binary64 (1 + q powr (1 / 3))" by (rule binary64_sum_ge_one)
  then have L: "0 \<le> L" unfolding L_def by (rule ln_ge_zero)
  have b: "0 < b" using assms(1) by (simp add: b_def)
  have den: "0 < 0.6 * b + L" using b L by (simp add: add_pos_nonneg)
  from assms have hill: "hill = 0.49 * b / (0.6 * b + L)"
    by (simp add: HillR_def b_def L_def)
  show "0 < hill" unfolding hill using b den by (intro divide_pos_pos) simp_all
  have "0.49 * b < 1 * (0.6 * b + L)" using b L by simp
  then show "hill < 1" unfolding hill using den by (simp only: pos_divide_less_eq)
qed

lemma HillR_pos:
  assumes "0 < q"
  shows "\<exists>f. HillR q = Inr f \<and> 0 < f"
proof -
  from assms obtain f where f: "HillR q = Inr f" by (simp add: HillR_def)
  from HillR_less_one(1) [OF assms f] f show ?thesis by blast
qed

subsection \<open>The composition of the three disks\<close>

lemma plot_spectrum_compose:
  assumes "plot_spectrum_locals M q pref_acc Notm = Inr v"
    and "HillR q = Inr hill"
    and "disk_spectrum (M1 v) (Mdot1 v) (Risco (M1 v)) (a0 v - hill * a0 v) 0.001
           = Some (Inr (out1, nu_v1, Inu1))"
    and "disk_spectrum (M2 v) (Mdot2 v) (Risco (M2 v)) (hill * a0 v) 0.001
           = Some (Inr (out2, nu_v2, Inu2))"
    and "disk_spectrum (M_bin v) (Mdot_bin v) (a0 v + hill * a0 v) (1000000 * a0 v) 0.001
           = Some (Inr (out3, nu_v, Inu3))"
  shows "plot_spectrum M q pref_acc Notm =
    Some (Inr \<lparr>printed = out1 @ out2 @ out3, nu = bin_centers nu_v,
               Lnu1 = array_mul (scalar_mul pi Inu1) (bin_centers nu_v),
               Lnu2 = array_mul (scalar_mul pi Inu2) (bin_centers nu_v),
               Lnu3 = array_mul (scalar_mul pi Inu3) (bin_centers nu_v),
               Lnutot = array_add (array_add
                   (array_mul (scalar_mul pi Inu1) (bin_centers nu_v))
                   (array_mul (scalar_mul pi Inu2) (bin_centers nu_v)))
                   (array_mul (scalar_mul pi Inu3) (bin_centers nu_v))\<rparr>)"
  unfolding plot_spectrum_def assms sum.case option.case prod.case Let_def ..

lemma plot_spectrum_result:
  assumes "plot_spectrum M q pref_acc Notm = Some (Inr d)"
  shows "\<exists>Inu1 Inu2 Inu3. length Inu1 = 998 \<and> length Inu2 = 998 \<and> length Inu3 = 998
    \<and> nu d = bin_centers (logspace 12 19 999)
    \<and> Lnu1 d = array_mul (scalar_mul pi Inu1) (nu d)
    \<and> Lnu2 d = array_mul (scalar_mul pi Inu2) (nu d)
    \<and> Lnu3 d = array_mul (scalar_mul pi Inu3) (nu d)
    \<and> Lnutot d = array_add (array_add (Lnu1 d) (Lnu2 d)) (Lnu3 d)"
proof -
  from assms obtain v where v: "plot_spectrum_locals M q pref_acc Notm = Inr v"
    unfolding plot_spectrum_def by (cases "plot_spectrum_locals M q pref_acc Notm") simp_all
  from assms v obtain hill where hill: "HillR q = Inr hill"
    unfolding plot_spectrum_def by (cases "HillR q") simp_all
  define D1 where "D1 = disk_spectrum (M1 v) (Mdot1 v) (Risco (M1 v)) (a0 v - hill * a0 v) 0.001"
  define D2 where "D2 = disk_spectrum (M2 v) (Mdot2 v) (Risco (M2 v)) (hill * a0 v) 0.001"
  define D3 where "D3 = disk_spectrum (M_bin v) (Mdot_bin v) (a0 v + hill * a0 v)
    (1000000 * a0 v) 0.001"
  note ps = assms [unfolded plot_spectrum_def, simplified v hill sum.case,
      folded D1_def D2_def D3_def]
  from ps obtain out1 nu_v1 Inu1 where d1: "D1 = Some (Inr (out1, nu_v1, Inu1))"
    by (cases D1) (auto split: sum.splits)
  from ps d1 obtain out2 nu_v2 Inu2 where d2: "D2 = Some (Inr (out2, nu_v2, Inu2))"
    by (cases D2) (auto split: sum.splits)
  from ps d1 d2 obtain out3 nu_v Inu3 where d3: "D3 = Some (Inr (out3, nu_v, Inu3))"
    by (cases D3) (auto split: sum.splits)
  from disk_spectrum_result [OF d1 [unfolded D1_def]] have l1: "length Inu1 = 998" by simp
  from disk_spectrum_result [OF d2 [unfolded D2_def]] have l2: "length Inu2 = 998" by simp
  from disk_spectrum_result [OF d3 [unfolded D3_def]]
  have l3: "length Inu3 = 998" and g: "nu_v = logspace 12 19 999" by simp_all
  from plot_spectrum_compose [OF v hill d1 [unfolded D1_def] d2 [unfolded D2_def]
      d3 [unfolded D3_def]] assms
  have "d = \<lparr>printed = out1 @ out2 @ out3, nu = bin_centers nu_v,
               Lnu1 = array_mul (scalar_mul pi Inu1) (bin_centers nu_v),
               Lnu2 = array_mul (scalar_mul pi Inu2) (bin_centers nu_v),
               Lnu3 = array_mul (scalar_mul pi Inu3) (bin_centers nu_v),
               Lnutot = array_add (array_add
                   (array_mul (scalar_mul pi Inu1) (bin_centers nu_v))
                   (array_mul (scalar_mul pi Inu2) (bin_centers nu_v)))
                   (array_mul (scalar_mul pi Inu3) (bin_centers nu_v))\<rparr>"
    by simp
  with l1 l2 l3 g show ?thesis by auto
qed

text \<open>
  On the domain of the interface (positive mass, mass ratio and orbit count, a
  preferential accretion that is not negative) all three loops end and \<open>plot_spectrum\<close>
  reaches the figure.
\<close>

lemma Mdot_acc_sign: "0 \<le> e \<Longrightarrow> 0 \<le> m * Mdot_acc m e"
proof -
  assume e: "0 \<le> e"
  have "m * Mdot_acc m e = e * (m * m) / tsal" by (simp add: Mdot_acc_def)
  also have "0 \<le> \<dots>" using e tsal_pos by simp
  finally show ?thesis .
qed

lemma plot_spectrum_valid:
  assumes "0 < M" and "0 < q" and "0 \<le> pref_acc" and "0 < Notm"
  shows "\<exists>d. plot_spectrum M q pref_acc Notm = Some (Inr d)"
proof -
  from assms(3) have p: "1 + pref_acc \<noteq> 0" by simp
  define v where "v = \<lparr>M_bin = M * Msun, M1 = M * Msun / (1 + q), M2 = M * Msun / (1 + q) * q,
          eta = q / (1 + q) ^ 2,
          edd_frac_1 = (1 + q) / (1 + pref_acc),
          edd_frac_2 = pref_acc * ((1 + q) / (1 + pref_acc)) / q,
          Mdot1 = Mdot_acc (M * Msun / (1 + q)) ((1 + q) / (1 + pref_acc)),
          Mdot2 = Mdot_acc (M * Msun / (1 + q) * q) (pref_acc * ((1 + q) / (1 + pref_acc)) / q),
          Mdot_bin = Mdot_acc (M * Msun) 1,
          a0 = G * (M * Msun) / c ^ 2
                 * (5 / (128 * pi * (q / (1 + q) ^ 2) * 4 * Notm)) powr (- 2 / 5)\<rparr>"
  have v: "plot_spectrum_locals M q pref_acc Notm = Inr v"
    unfolding v_def using assms(2) p assms(4) by (rule plot_spectrum_locals_eq)
  from HillR_pos [OF assms(2)] obtain hill where hill: "HillR q = Inr hill" "0 < hill"
    by blast
  have Mb: "0 < M * Msun" using assms(1) Msun_pos by simp
  have m1: "0 < M1 v" using Mb assms(2) by (simp add: v_def)
  have m2: "0 < M2 v" using Mb assms(2) by (simp add: v_def)
  have e1: "0 \<le> (1 + q) / (1 + pref_acc)" using assms(2,3) by simp
  have e2: "0 \<le> pref_acc * ((1 + q) / (1 + pref_acc)) / q" using assms(2,3) by simp
  have sel: "Mdot1 v = Mdot_acc (M1 v) ((1 + q) / (1 + pref_acc))"
    "Mdot2 v = Mdot_acc (M2 v) (pref_acc * ((1 + q) / (1 + pref_acc)) / q)"
    "Mdot_bin v = Mdot_acc (M_bin v) 1"
    by (simp_all add: v_def)
  have s1: "0 \<le> M1 v * Mdot1 v" unfolding sel using e1 by (rule Mdot_acc_sign)
  have s2: "0 \<le> M2 v * Mdot2 v" unfolding sel using e2 by (rule Mdot_acc_sign)
  have s3: "0 \<le> M_bin v * Mdot_bin v" unfolding sel by (rule Mdot_acc_sign) simp
  have a: "0 < a0 v"
  proof -
    have "0 < G * (M * Msun) / c ^ 2" using G_pos Mb c_pos by simp
    moreover have "0 < (5 / (128 * pi * (q / (1 + q) ^ 2) * 4 * Notm)) powr (- 2 / 5)"
      using assms(2,4) by simp
    ultimately have "0 < G * (M * Msun) / c ^ 2
        * (5 / (128 * pi * (q / (1 + q) ^ 2) * 4 * Notm)) powr (- 2 / 5)"
      by (rule mult_pos_pos)
    moreover have "a0 v = G * (M * Msun) / c ^ 2
        * (5 / (128 * pi * (q / (1 + q) ^ 2) * 4 * Notm)) powr (- 2 / 5)"
      by (simp add: v_def)
    ultimately show ?thesis by simp
  qed
  have r1: "0 < Risco (M1 v)" using m1 G_pos c_pos by (simp add: Risco_def)
  have r2: "0 < Risco (M2 v)" using m2 G_pos c_pos by (simp add: Risco_def)
  have r3: "0 < a0 v + hill * a0 v" using a hill(2) by (simp add: add_pos_pos)
  have dl: "(1 / 2 ^ 53 :: real) < 0.001" by simp
  from disk_spectrum_returns [OF r1 dl s1] obtain out1 nu_v1 Inu1 where
    d1: "disk_spectrum (M1 v) (Mdot1 v) (Risco (M1 v)) (a0 v - hill * a0 v) 0.001
           = Some (Inr (out1, nu_v1, Inu1))" by blast
  from disk_spectrum_returns [OF r2 dl s2] obtain out2 nu_v2 Inu2 where
    d2: "disk_spectrum (M2 v) (Mdot2 v) (Risco (M2 v)) (hill * a0 v) 0.001
           = Some (Inr (out2, nu_v2, Inu2))" by blast
  from disk_spectrum_returns [OF r3 dl s3] obtain out3 nu_v Inu3 where
    d3: "disk_spectrum (M_bin v) (Mdot_bin v) (a0 v + hill * a0 v) (1000000 * a0 v) 0.001
           = Some (Inr (out3, nu_v, Inu3))" by blast
  from plot_spectrum_compose [OF v hill(1) d1 d2 d3] show ?thesis by blast
qed

text \<open>
  The outer disk. Its inner radius \<open>a0 + hill * a0\<close> is a numpy float. Whenever its loop
  is entered this radius is positive, and \<open>Tstar\<close> is the fourth root of a number that
  is not negative: nothing there depends on the kind of float.
\<close>

lemma outer_disk_entered:
  assumes "0 < hill" and "hill < 1" and "(a + hill * a) * 1.0001 < 1000000 * (a::real)"
  shows "0 < a + hill * a"
proof -
  have "0 < a"
  proof (rule ccontr)
    assume "\<not> 0 < a"
    then have a: "a \<le> 0" by simp
    have "(1 + hill) * 1.0001 \<le> 1000000" using assms(2) by simp
    then have "1000000 * a \<le> (1 + hill) * 1.0001 * a"
      using a by (rule mult_right_mono_neg)
    also have "\<dots> = (a + hill * a) * 1.0001" by (simp add: algebra_simps)
    finally show False using assms(3) by simp
  qed
  moreover from this assms(1) have "0 < hill * a" by simp
  ultimately show ?thesis by (rule add_pos_pos)
qed

lemma outer_disk_Tstar:
  assumes "0 < hill" and "hill < 1" and "(a + hill * a) * 1.0001 < 1000000 * (a::real)"
  shows "Tstar (a + hill * a) M (Mdot_acc M 1.0)
    = Inr ((3 * G * M * Mdot_acc M 1.0 / (8 * pi * (a + hill * a) ^ 3 * sb)) powr 0.25)"
proof -
  note R0 = outer_disk_entered [OF assms]
  then have nz: "a + hill * a \<noteq> 0" by simp
  have "0 \<le> M * Mdot_acc M 1.0" by (rule Mdot_acc_sign) simp
  then have "\<not> M * Mdot_acc M 1.0 < 0" by simp
  then have "\<not> 3 * G * M * Mdot_acc M 1.0 / (8 * pi * (a + hill * a) ^ 3 * sb) < 0"
    unfolding Tstar_quotient_sign [OF R0] .
  then show ?thesis unfolding Tstar_cases [OF nz] by (rule if_not_P)
qed

lemma array_add_nth:
  "i < length xs \<Longrightarrow> i < length ys \<Longrightarrow> array_add xs ys ! i = xs ! i + ys ! i"
  by (simp add: array_add_def)

lemma length_array_add: "length (array_add xs ys) = min (length xs) (length ys)"
  by (simp add: array_add_def)

lemma length_array_mul: "length (array_mul xs ys) = min (length xs) (length ys)"
  by (simp add: array_mul_def)

lemma length_scalar_mul: "length (scalar_mul a xs) = length xs"
  by (simp add: scalar_mul_def)

lemma plot_spectrum_lengths:
  assumes "plot_spectrum M q pref_acc Notm = Some (Inr d)"
  shows "nu d = bin_centers (logspace 12 19 999)" and "length (nu d) = 998"
    and "length (Lnu1 d) = 998" and "length (Lnu2 d) = 998"
    and "length (Lnu3 d) = 998" and "length (Lnutot d) = 998"
    and "Lnutot d = array_add (array_add (Lnu1 d) (Lnu2 d)) (Lnu3 d)"
proof -
  from plot_spectrum_result [OF assms] obtain Inu1 Inu2 Inu3 where
    l: "length Inu1 = 998" "length Inu2 = 998" "length Inu3 = 998"
    and n: "nu d = bin_centers (logspace 12 19 999)"
    and L: "Lnu1 d = array_mul (scalar_mul pi Inu1) (nu d)"
      "Lnu2 d = array_mul (scalar_mul pi Inu2) (nu d)"
      "Lnu3 d = array_mul (scalar_mul pi Inu3) (nu d)"
    and T: "Lnutot d = array_add (array_add (Lnu1 d) (Lnu2 d)) (Lnu3 d)"
    by blast
  show "nu d = bin_centers (logspace 12 19 999)" by (rule n)
  show ln: "length (nu d) = 998" by (simp add: n len_centers)
  show l1: "length (Lnu1 d) = 998"
    by (simp add: L length_scalar_mul length_array_mul l ln)
  show l2: "length (Lnu2 d) = 998"
    by (simp add: L length_scalar_mul length_array_mul l ln)
  show l3: "length (Lnu3 d) = 998"
    by (simp add: L length_scalar_mul length_array_mul l ln)
  show "Lnutot d = array_add (array_add (Lnu1 d) (Lnu2 d)) (Lnu3 d)" by (rule T)
  show "length (Lnutot d) = 998"
    by (simp add: T length_array_add l1 l2 l3)
qed

text \<open>
  C5. For every input on which \<open>plot_spectrum\<close> reaches the figure, the four luminosity
  sequences have 998 entries and at every bin index \<open>i\<close> the total is the sum of the
  three disks: \<open>Lnutot[i] = Lnu1[i] + Lnu2[i] + Lnu3[i]\<close>, added in this order.
\<close>

theorem spectrum_additivity:
  assumes "plot_spectrum M q pref_acc Notm = Some (Inr d)" and "i < 998"
  shows "length (Lnu1 d) = 998 \<and> length (Lnu2 d) = 998 \<and> length (Lnu3 d) = 998
    \<and> length (Lnutot d) = 998
    \<and> Lnutot d ! i = Lnu1 d ! i + Lnu2 d ! i + Lnu3 d ! i"
proof -
  note f = plot_spectrum_lengths [OF assms(1)]
  have "Lnutot d ! i = array_add (Lnu1 d) (Lnu2 d) ! i + Lnu3 d ! i"
    unfolding f(7) using assms(2) by (intro array_add_nth) (simp_all add: length_array_add f)
  also have "array_add (Lnu1 d) (Lnu2 d) ! i = Lnu1 d ! i + Lnu2 d ! i"
    using assms(2) by (intro array_add_nth) (simp_all add: f)
  finally show ?thesis using f by simp
qed

theorem spectrum_additivity_witness:
  "\<exists>d. plot_spectrum (10 ^ 7) 0.01 10 (10 ^ 4) = Some (Inr d) \<and> (0::nat) < 998
     \<and> length (Lnutot d) = 998
     \<and> Lnutot d ! 0 = Lnu1 d ! 0 + Lnu2 d ! 0 + Lnu3 d ! 0"
proof -
  from plot_spectrum_valid [of "10 ^ 7" "0.01" 10 "10 ^ 4"]
  obtain d where d: "plot_spectrum (10 ^ 7) 0.01 10 (10 ^ 4) = Some (Inr d)" by auto
  have i: "(0::nat) < 998" by simp
  from spectrum_additivity [OF d i] d i show ?thesis by blast
qed

text \<open>
  C6. Whenever \<open>disk_spectrum\<close> returns, its frequency grid has exactly 999 edges from
  \<open>10^12\<close> to \<open>10^19\<close> Hz, equally spaced in the logarithm; the bin centers are the 998
  arithmetic means of adjacent edges, and the intensity sequence has 998 entries.
  Whenever \<open>plot_spectrum\<close> reaches the figure, its frequency axis is this sequence of
  bin centers and each of its luminosity sequences has 998 entries.
\<close>

theorem grid_consistency:
  "(disk_spectrum M Mdot R0 Rout delta = Some (Inr (out, nu_v, Inu)) \<longrightarrow>
      length nu_v = 999 \<and> nu_v ! 0 = 10 ^ 12 \<and> nu_v ! 998 = 10 ^ 19
      \<and> (\<forall>i<999. log 10 (nu_v ! i) = 12 + 7 * real i / 998)
      \<and> length (bin_centers nu_v) = 998
      \<and> (\<forall>i<998. bin_centers nu_v ! i = (nu_v ! i + nu_v ! Suc i) / 2)
      \<and> length Inu = 998)
   \<and> (plot_spectrum M' q pref_acc Notm = Some (Inr d) \<longrightarrow>
      nu d = bin_centers (logspace 12 19 999) \<and> length (nu d) = 998
      \<and> length (Lnu1 d) = 998 \<and> length (Lnu2 d) = 998 \<and> length (Lnu3 d) = 998
      \<and> length (Lnutot d) = 998)"
proof (intro conjI impI)
  assume "plot_spectrum M' q pref_acc Notm = Some (Inr d)"
  note f = plot_spectrum_lengths [OF this]
  show "nu d = bin_centers (logspace 12 19 999)" "length (nu d) = 998"
    "length (Lnu1 d) = 998" "length (Lnu2 d) = 998" "length (Lnu3 d) = 998"
    "length (Lnutot d) = 998"
    by (rule f)+
next
  assume a: "disk_spectrum M Mdot R0 Rout delta = Some (Inr (out, nu_v, Inu))"
  note g = disk_spectrum_result(1) [OF a]
  show "length nu_v = 999" by (simp add: g len_grid)
  show "nu_v ! 0 = 10 ^ 12" unfolding g by (rule grid_first)
  show "nu_v ! 998 = 10 ^ 19" unfolding g by (rule grid_last)
  show "\<forall>i<999. log 10 (nu_v ! i) = 12 + 7 * real i / 998"
    unfolding g by (intro allI impI grid_log)
  show "length (bin_centers nu_v) = 998" unfolding g by (rule len_centers)
  show "\<forall>i<998. bin_centers nu_v ! i = (nu_v ! i + nu_v ! Suc i) / 2"
    unfolding g by (intro allI impI bin_centers_nth) (simp add: len_grid)
  show "length Inu = 998" by (rule disk_spectrum_result(2) [OF a])
qed

theorem grid_consistency_witness:
  "\<exists>out nu_v Inu d. disk_spectrum 1 1 1 2 0.1 = Some (Inr (out, nu_v, Inu))
     \<and> plot_spectrum (10 ^ 7) 0.01 10 (10 ^ 4) = Some (Inr d)
     \<and> length nu_v = 999 \<and> nu_v ! 0 = 10 ^ 12 \<and> nu_v ! 998 = 10 ^ 19
     \<and> log 10 (nu_v ! 499) = 12 + 7 * 499 / 998
     \<and> bin_centers nu_v ! 0 = (nu_v ! 0 + nu_v ! 1) / 2
     \<and> length Inu = 998 \<and> length (Lnutot d) = 998"
proof -
  from disk_spectrum_returns [of 1 "0.1" 1 1 2]
  obtain out nu_v Inu where a: "disk_spectrum 1 1 1 2 0.1 = Some (Inr (out, nu_v, Inu))"
    by auto
  from plot_spectrum_valid [of "10 ^ 7" "0.01" 10 "10 ^ 4"]
  obtain d where d: "plot_spectrum (10 ^ 7) 0.01 10 (10 ^ 4) = Some (Inr d)" by auto
  from grid_consistency [of 1 1 1 2 "0.1" out nu_v Inu "10 ^ 7" "0.01" 10 "10 ^ 4" d] a d
  have "length nu_v = 999" "nu_v ! 0 = 10 ^ 12" "nu_v ! 998 = 10 ^ 19"
    "\<forall>i<999. log 10 (nu_v ! i) = 12 + 7 * real i / 998"
    "\<forall>i<998. bin_centers nu_v ! i = (nu_v ! i + nu_v ! Suc i) / 2"
    "length Inu = 998" "length (Lnutot d) = 998"
    by blast+
  moreover from this(4) have "log 10 (nu_v ! 499) = 12 + 7 * real 499 / 998" by simp
  moreover from calculation(5) have "bin_centers nu_v ! 0 = (nu_v ! 0 + nu_v ! Suc 0) / 2"
    by simp
  ultimately show ?thesis using a d by (intro exI [of _ out] exI [of _ nu_v] exI [of _ Inu] exI [of _ d]) simp
qed

subsection \<open>Inputs outside the domain\<close>

lemma scalar_mul_zeros: "scalar_mul a (replicate n 0) = replicate n 0"
  by (simp add: scalar_mul_def)

lemma array_mul_zeros: "length xs = n \<Longrightarrow> array_mul (replicate n 0) xs = replicate n 0"
  by (simp add: array_mul_def list_eq_iff_nth_eq)

lemma array_add_zeros: "array_add (replicate n 0) (replicate n 0) = replicate n 0"
  by (simp add: array_add_def zip_replicate)

lemma plot_spectrum_zero_mass:
  assumes "0 < q" and "pref_acc \<noteq> - 1" and "0 < Notm"
  shows "plot_spectrum 0 q pref_acc Notm =
    Some (Inr \<lparr>printed = [], nu = bin_centers (logspace 12 19 999),
               Lnu1 = replicate 998 0, Lnu2 = replicate 998 0, Lnu3 = replicate 998 0,
               Lnutot = replicate 998 0\<rparr>)"
proof -
  from assms(2) have p: "1 + pref_acc \<noteq> 0" by simp
  define v where "v = \<lparr>M_bin = 0 * Msun, M1 = 0 * Msun / (1 + q), M2 = 0 * Msun / (1 + q) * q,
          eta = q / (1 + q) ^ 2,
          edd_frac_1 = (1 + q) / (1 + pref_acc),
          edd_frac_2 = pref_acc * ((1 + q) / (1 + pref_acc)) / q,
          Mdot1 = Mdot_acc (0 * Msun / (1 + q)) ((1 + q) / (1 + pref_acc)),
          Mdot2 = Mdot_acc (0 * Msun / (1 + q) * q) (pref_acc * ((1 + q) / (1 + pref_acc)) / q),
          Mdot_bin = Mdot_acc (0 * Msun) 1,
          a0 = G * (0 * Msun) / c ^ 2
                 * (5 / (128 * pi * (q / (1 + q) ^ 2) * 4 * Notm)) powr (- 2 / 5)\<rparr>"
  have v: "plot_spectrum_locals 0 q pref_acc Notm = Inr v"
    unfolding v_def using assms(1) p assms(3) by (rule plot_spectrum_locals_eq)
  have z: "M1 v = 0" "M2 v = 0" "M_bin v = 0" "a0 v = 0"
    by (simp_all add: v_def)
  from HillR_pos [OF assms(1)] obtain hill where hill: "HillR q = Inr hill" by blast
  have r: "Risco 0 = 0" by (simp add: Risco_def)
  have d: "disk_spectrum m md 0 0 dl = Some (Inr ([], logspace 12 19 999, replicate 998 0))"
    for m md dl
    by (simp add: disk_spectrum_no_loop)
  have d1: "disk_spectrum (M1 v) (Mdot1 v) (Risco (M1 v)) (a0 v - hill * a0 v) 0.001
      = Some (Inr ([], logspace 12 19 999, replicate 998 0))"
    unfolding z r using d by simp
  have d2: "disk_spectrum (M2 v) (Mdot2 v) (Risco (M2 v)) (hill * a0 v) 0.001
      = Some (Inr ([], logspace 12 19 999, replicate 998 0))"
    unfolding z r using d by simp
  have d3: "disk_spectrum (M_bin v) (Mdot_bin v) (a0 v + hill * a0 v) (1000000 * a0 v) 0.001
      = Some (Inr ([], logspace 12 19 999, replicate 998 0))"
    unfolding z using d by simp
  have L: "array_mul (scalar_mul pi (replicate 998 0)) (bin_centers (logspace 12 19 999))
      = replicate 998 0"
    by (simp add: array_mul_zeros len_centers scalar_mul_zeros)
  show ?thesis
    unfolding plot_spectrum_compose [OF v hill d1 d2 d3] L array_add_zeros by simp
qed

text \<open>
  C4 as stated fails: \<open>plot_spectrum\<close> checks none of its arguments. For a mass of 0
  (with \<open>q = 1\<close>, \<open>pref_acc = 1\<close>, \<open>Notm = 1\<close>) every radius is 0, no loop is entered, and
  the function reaches the figure with all-zero luminosities and no error at all.
\<close>

theorem no_validation_counterexample:
  "plot_spectrum 0 1 1 1 =
    Some (Inr \<lparr>printed = [], nu = bin_centers (logspace 12 19 999),
               Lnu1 = replicate 998 0, Lnu2 = replicate 998 0, Lnu3 = replicate 998 0,
               Lnutot = replicate 998 0\<rparr>)"
  by (rule plot_spectrum_zero_mass) simp_all

text \<open>
  C4, amended. \<open>plot_spectrum\<close> validates nothing. For a mass ratio of 0 or an orbit
  count of 0 it stops with Python's \<open>ZeroDivisionError\<close>, raised by the arithmetic. A
  mass of 0 (with \<open>q > 0\<close>, \<open>pref_acc\<close> other than \<open>-1\<close> and \<open>Notm > 0\<close>) is accepted: the
  function raises nothing, prints nothing and plots all-zero luminosities.
\<close>

theorem invalid_inputs:
  "(q = 0 \<or> Notm = 0 \<longrightarrow> plot_spectrum M q pref_acc Notm = Some (Inl ZeroDivisionError))
   \<and> (0 < q \<and> pref_acc \<noteq> - 1 \<and> 0 < Notm \<longrightarrow>
        plot_spectrum 0 q pref_acc Notm =
          Some (Inr \<lparr>printed = [], nu = bin_centers (logspace 12 19 999),
                     Lnu1 = replicate 998 0, Lnu2 = replicate 998 0,
                     Lnu3 = replicate 998 0, Lnutot = replicate 998 0\<rparr>))"
proof (intro conjI impI)
  assume "q = 0 \<or> Notm = 0"
  then have "plot_spectrum_locals M q pref_acc Notm = Inl ZeroDivisionError"
    by (intro plot_spectrum_locals_raise) auto
  then show "plot_spectrum M q pref_acc Notm = Some (Inl ZeroDivisionError)"
    by (simp add: plot_spectrum_def)
next
  assume "0 < q \<and> pref_acc \<noteq> - 1 \<and> 0 < Notm"
  then show "plot_spectrum 0 q pref_acc Notm =
          Some (Inr \<lparr>printed = [], nu = bin_centers (logspace 12 19 999),
                     Lnu1 = replicate 998 0, Lnu2 = replicate 998 0,
                     Lnu3 = replicate 998 0, Lnutot = replicate 998 0\<rparr>)"
    by (intro plot_spectrum_zero_mass) simp_all
qed

theorem invalid_inputs_witness:
  "plot_spectrum (10 ^ 7) 0 10 (10 ^ 4) = Some (Inl ZeroDivisionError)
   \<and> plot_spectrum (10 ^ 7) 0.01 10 0 = Some (Inl ZeroDivisionError)
   \<and> plot_spectrum 0 0.01 10 (10 ^ 4) =
          Some (Inr \<lparr>printed = [], nu = bin_centers (logspace 12 19 999),
                     Lnu1 = replicate 998 0, Lnu2 = replicate 998 0,
                     Lnu3 = replicate 998 0, Lnutot = replicate 998 0\<rparr>)"
  using invalid_inputs [of 0 "10 ^ 4" "10 ^ 7" 10]
    invalid_inputs [of "0.01" 0 "10 ^ 7" 10]
    invalid_inputs [of "0.01" "10 ^ 4" "10 ^ 7" 10]
  by simp

subsection \<open>The temperature profile\<close>

text \<open>
  With \<open>s = sqrt (R0 / R)\<close> the factor under the fourth root is \<open>s^6 * (1 - s)\<close>, which
  rises on \<open>[0, 6/7]\<close> and falls on \<open>[6/7, 1]\<close>: the temperature has its maximum at
  \<open>R = 49/36 * R0\<close>.
\<close>

lemma shape_deriv:
  "((\<lambda>s::real. s ^ 6 * (1 - s)) has_real_derivative (s ^ 5 * (6 - 7 * s))) (at s)"
  by (auto intro!: derivative_eq_intros simp: algebra_simps power_eq_if)

lemma shape_incr:
  assumes "0 \<le> a" and "a < b" and "b \<le> 6 / 7"
  shows "a ^ 6 * (1 - a) < b ^ 6 * (1 - (b::real))"
proof (rule DERIV_pos_imp_increasing_open [OF assms(2)])
  fix x assume x: "a < x" "x < b"
  then have "0 < x" "0 < 6 - 7 * x" using assms by simp_all
  then have "0 < x ^ 5 * (6 - 7 * x)" by simp
  with shape_deriv show "\<exists>y. ((\<lambda>s. s ^ 6 * (1 - s)) has_real_derivative y) (at x) \<and> 0 < y"
    by blast
next
  show "continuous_on {a..b} (\<lambda>s. s ^ 6 * (1 - s))"
    by (intro continuous_intros)
qed

lemma shape_decr:
  assumes "6 / 7 \<le> a" and "a < b"
  shows "b ^ 6 * (1 - b) < a ^ 6 * (1 - (a::real))"
proof (rule DERIV_neg_imp_decreasing_open [OF assms(2)])
  fix x assume x: "a < x" "x < b"
  then have "0 < x ^ 5" "6 - 7 * x < 0" using assms by simp_all
  then have "x ^ 5 * (6 - 7 * x) < 0" by (rule mult_pos_neg)
  with shape_deriv show "\<exists>y. ((\<lambda>s. s ^ 6 * (1 - s)) has_real_derivative y) (at x) \<and> y < 0"
    by blast
next
  show "continuous_on {a..b} (\<lambda>s. s ^ 6 * (1 - s))"
    by (intro continuous_intros)
qed

lemma shape_sqrt:
  assumes "0 \<le> x"
  shows "x ^ 3 * (1 - sqrt x) = sqrt x ^ 6 * (1 - sqrt x)"
proof -
  have "sqrt x ^ 6 = (sqrt x ^ 2) ^ 3" by (simp add: power_mult [symmetric])
  also have "\<dots> = x ^ 3" using assms by simp
  finally show ?thesis by simp
qed

lemma ratio_bounds:
  assumes "0 < R0" and "R0 \<le> R"
  shows "0 < R0 / R" and "R0 / R \<le> (1::real)"
  using assms by simp_all

lemma ratio_less:
  assumes "0 < R0" and "0 < R1" and "R1 < R2"
  shows "R0 / R2 < R0 / (R1::real)"
  using assms by (simp add: divide_strict_left_mono)

lemma shape_R_decr:
  assumes "0 < R0" and "49 / 36 * R0 \<le> R1" and "R1 < R2"
  shows "(R0 / R2) ^ 3 * (1 - sqrt (R0 / R2)) < (R0 / R1) ^ 3 * (1 - sqrt (R0 / R1))"
proof -
  from assms(1) have "0 < 49 / 36 * R0" by simp
  then have R1: "0 < R1" using assms(2) by (rule less_le_trans)
  with assms(3) have R2: "0 < R2" by simp
  have "R0 / R1 \<le> (6 / 7)\<^sup>2"
    using assms(1,2) R1 by (simp add: pos_divide_le_eq power2_eq_square)
  then have s1: "sqrt (R0 / R1) \<le> 6 / 7" by (intro real_le_lsqrt) simp_all
  have "sqrt (R0 / R2) < sqrt (R0 / R1)"
    using ratio_less [OF assms(1) R1 assms(3)] by simp
  moreover have "0 \<le> sqrt (R0 / R2)" using assms(1) R2 by simp
  ultimately have "sqrt (R0 / R2) ^ 6 * (1 - sqrt (R0 / R2))
      < sqrt (R0 / R1) ^ 6 * (1 - sqrt (R0 / R1))"
    using s1 by (intro shape_incr)
  moreover have "0 \<le> R0 / R1" "0 \<le> R0 / R2" using assms(1) R1 R2 by simp_all
  ultimately show ?thesis by (simp only: shape_sqrt)
qed

lemma shape_R_incr:
  assumes "0 < R0" and "R0 \<le> R1" and "R1 < R2" and "R2 \<le> 49 / 36 * R0"
  shows "(R0 / R1) ^ 3 * (1 - sqrt (R0 / R1)) < (R0 / R2) ^ 3 * (1 - sqrt (R0 / R2))"
proof -
  from assms have R1: "0 < R1" and R2: "0 < R2" by simp_all
  have "(6 / 7)\<^sup>2 \<le> R0 / R2"
    using assms(1,4) R2 by (simp add: pos_le_divide_eq power2_eq_square)
  then have s2: "6 / 7 \<le> sqrt (R0 / R2)" by (intro real_le_rsqrt)
  have "sqrt (R0 / R2) < sqrt (R0 / R1)"
    using ratio_less [OF assms(1) R1 assms(3)] by simp
  with s2 have "sqrt (R0 / R1) ^ 6 * (1 - sqrt (R0 / R1))
      < sqrt (R0 / R2) ^ 6 * (1 - sqrt (R0 / R2))"
    by (intro shape_decr)
  moreover have "0 \<le> R0 / R1" "0 \<le> R0 / R2" using assms(1) R1 R2 by simp_all
  ultimately show ?thesis by (simp only: shape_sqrt)
qed

lemma Tstar_positive:
  assumes "0 < R0" and "0 < M" and "0 < Mdot"
  shows "0 < 3 * G * M * Mdot / (8 * pi * R0 ^ 3 * sb)"
  using assms G_pos sb_pos by simp

lemma disk_temperature_profile:
  assumes "0 < R0" and "0 \<le> M * Mdot" and "R0 \<le> R"
  shows "disk_temperature R R0 M Mdot =
    Inr ((3 * G * M * Mdot / (8 * pi * R0 ^ 3 * sb)) powr 0.25
          * ((R0 / R) ^ 3 * (1 - sqrt (R0 / R))) powr 0.25)"
proof -
  from assms(1) have nz: "R0 \<noteq> 0" by simp
  have "\<not> 3 * G * M * Mdot / (8 * pi * R0 ^ 3 * sb) < 0"
    unfolding Tstar_quotient_sign [OF assms(1)] using assms(2) by simp
  with nz ratio_bounds [OF assms(1,3)] show ?thesis
    by (intro disk_temperature_real)
qed

lemma shape_nonneg_R:
  assumes "0 < R0" and "R0 \<le> R"
  shows "0 \<le> (R0 / R) ^ 3 * (1 - sqrt (R0 / R))"
  using shape_nonneg [OF ratio_bounds [OF assms]] by (simp add: not_less)

lemma shape_tendsto_zero:
  assumes "0 < R0"
  shows "((\<lambda>R. (R0 / R) ^ 3 * (1 - sqrt (R0 / R))) \<longlongrightarrow> 0) (at_right R0)"
proof -
  have "((\<lambda>R. (R0 / R) ^ 3 * (1 - sqrt (R0 / R))) \<longlongrightarrow>
      (R0 / R0) ^ 3 * (1 - sqrt (R0 / R0))) (at_right R0)"
    using assms by (intro tendsto_intros) simp_all
  then show ?thesis using assms by simp
qed

lemma temperature_tendsto_zero:
  assumes "0 < R0" and "0 \<le> M * Mdot"
  shows "((\<lambda>R. projr (disk_temperature R R0 M Mdot)) \<longlongrightarrow> 0) (at_right R0)"
proof -
  define Q where "Q = 3 * G * M * Mdot / (8 * pi * R0 ^ 3 * sb)"
  have nonneg: "\<forall>\<^sub>F R in at_right R0. 0 \<le> (R0 / R) ^ 3 * (1 - sqrt (R0 / R))"
    using eventually_at_right_less [of R0]
    by eventually_elim (simp add: shape_nonneg_R assms(1))
  have "((\<lambda>R. ((R0 / R) ^ 3 * (1 - sqrt (R0 / R))) powr 0.25) \<longlongrightarrow> 0) (at_right R0)"
    by (rule tendsto_zero_powrI [OF shape_tendsto_zero [OF assms(1)] tendsto_const nonneg])
      simp
  then have "((\<lambda>R. Q powr 0.25 * ((R0 / R) ^ 3 * (1 - sqrt (R0 / R))) powr 0.25)
      \<longlongrightarrow> 0) (at_right R0)"
    by (rule tendsto_mult_right_zero)
  moreover have "\<forall>\<^sub>F R in at_right R0.
      Q powr 0.25 * ((R0 / R) ^ 3 * (1 - sqrt (R0 / R))) powr 0.25
        = projr (disk_temperature R R0 M Mdot)"
    using eventually_at_right_less [of R0]
    by eventually_elim (simp add: disk_temperature_profile assms Q_def)
  ultimately show ?thesis by (rule Lim_transform_eventually)
qed

lemma ratio_tendsto_zero: "((\<lambda>R::real. R0 / R) \<longlongrightarrow> 0) at_top"
  by (intro tendsto_divide_0 [OF tendsto_const] filterlim_at_top_imp_at_infinity
      filterlim_ident)

lemma shape_split:
  assumes "0 < x" and "x \<le> 1"
  shows "(x ^ 3 * (1 - sqrt x)) powr 0.25 = x powr (3 / 4) * (1 - sqrt x) powr 0.25"
proof -
  have "x ^ 3 = x powr 3" using assms by simp
  then have "(x ^ 3) powr 0.25 = (x powr 3) powr 0.25" by simp
  also have "\<dots> = x powr (3 / 4)" by (simp add: powr_powr)
  finally have a: "(x ^ 3) powr 0.25 = x powr (3 / 4)" .
  have "(x ^ 3 * (1 - sqrt x)) powr 0.25 = (x ^ 3) powr 0.25 * (1 - sqrt x) powr 0.25"
    by (rule powr_mult)
  then show ?thesis unfolding a .
qed

lemma temperature_power_law:
  assumes "0 < R0" and "0 < M" and "0 < Mdot"
  shows "((\<lambda>R. projr (disk_temperature R R0 M Mdot)
            / ((3 * G * M * Mdot / (8 * pi * R0 ^ 3 * sb)) powr 0.25 * (R0 / R) powr (3 / 4)))
          \<longlongrightarrow> 1) at_top"
proof -
  define Q where "Q = 3 * G * M * Mdot / (8 * pi * R0 ^ 3 * sb)"
  have Q: "0 < Q" unfolding Q_def using assms by (rule Tstar_positive)
  have MM: "0 \<le> M * Mdot" using assms by simp
  have "((\<lambda>R. (1 - sqrt (R0 / R)) powr 0.25) \<longlongrightarrow> (1 - sqrt 0) powr 0.25) at_top"
    by (intro tendsto_intros ratio_tendsto_zero) simp_all
  then have lim: "((\<lambda>R. (1 - sqrt (R0 / R)) powr 0.25) \<longlongrightarrow> 1) at_top" by simp
  have "\<forall>\<^sub>F R in at_top. (1 - sqrt (R0 / R)) powr 0.25
      = projr (disk_temperature R R0 M Mdot) / (Q powr 0.25 * (R0 / R) powr (3 / 4))"
    using eventually_ge_at_top [of R0]
  proof eventually_elim
    case (elim R)
    note rb = ratio_bounds [OF assms(1) elim]
    have "Q \<noteq> 0" using Q by simp
    moreover have "R0 / R \<noteq> 0" using rb(1) by (rule less_imp_neq [THEN not_sym])
    ultimately have "0 < Q powr 0.25 * (R0 / R) powr (3 / 4)" by simp
    then have nz: "Q powr 0.25 * (R0 / R) powr (3 / 4) \<noteq> 0"
      by (rule less_imp_neq [THEN not_sym])
    have "projr (disk_temperature R R0 M Mdot)
        = Q powr 0.25 * ((R0 / R) powr (3 / 4) * (1 - sqrt (R0 / R)) powr 0.25)"
      unfolding disk_temperature_profile [OF assms(1) MM elim] Q_def shape_split [OF rb]
      by simp
    also have "\<dots> = (Q powr 0.25 * (R0 / R) powr (3 / 4)) * (1 - sqrt (R0 / R)) powr 0.25"
      by (simp only: mult.assoc)
    finally have e: "projr (disk_temperature R R0 M Mdot)
        = (Q powr 0.25 * (R0 / R) powr (3 / 4)) * (1 - sqrt (R0 / R)) powr 0.25" .
    show ?case unfolding e by (rule nonzero_mult_div_cancel_left [OF nz, symmetric])
  qed
  with lim show ?thesis unfolding Q_def by (rule Lim_transform_eventually)
qed

lemma powr_pos: "0 < x \<Longrightarrow> 0 < x powr (a::real)"
  by simp

lemma temperature_decreasing:
  assumes "0 < R0" and "0 < M" and "0 < Mdot" and "49 / 36 * R0 \<le> R1" and "R1 < R2"
  shows "projr (disk_temperature R2 R0 M Mdot) < projr (disk_temperature R1 R0 M Mdot)"
proof -
  have MM: "0 \<le> M * Mdot" using assms(2,3) by simp
  have "R0 * 1 \<le> 49 / 36 * R0" using assms(1) by simp
  with assms(4) have r1: "R0 \<le> R1" by simp
  with assms(5) have r2: "R0 \<le> R2" by simp
  have Q: "0 < (3 * G * M * Mdot / (8 * pi * R0 ^ 3 * sb)) powr 0.25"
    using Tstar_positive [OF assms(1-3)] by (rule powr_pos)
  have "((R0 / R2) ^ 3 * (1 - sqrt (R0 / R2))) powr 0.25
      < ((R0 / R1) ^ 3 * (1 - sqrt (R0 / R1))) powr 0.25"
    by (rule powr_less_mono2 [OF _ shape_nonneg_R [OF assms(1) r2]
          shape_R_decr [OF assms(1,4,5)]]) simp
  with Q show ?thesis
    unfolding disk_temperature_profile [OF assms(1) MM r1]
      disk_temperature_profile [OF assms(1) MM r2] sum.sel
    by (rule mult_strict_left_mono [rotated])
qed

lemma temperature_increasing:
  assumes "0 < R0" and "0 < M" and "0 < Mdot" and "R0 \<le> R1" and "R1 < R2"
    and "R2 \<le> 49 / 36 * R0"
  shows "projr (disk_temperature R1 R0 M Mdot) < projr (disk_temperature R2 R0 M Mdot)"
proof -
  have MM: "0 \<le> M * Mdot" using assms(2,3) by simp
  from assms(4,5) have r2: "R0 \<le> R2" by simp
  have Q: "0 < (3 * G * M * Mdot / (8 * pi * R0 ^ 3 * sb)) powr 0.25"
    using Tstar_positive [OF assms(1-3)] by (rule powr_pos)
  have "((R0 / R1) ^ 3 * (1 - sqrt (R0 / R1))) powr 0.25
      < ((R0 / R2) ^ 3 * (1 - sqrt (R0 / R2))) powr 0.25"
    by (rule powr_less_mono2 [OF _ shape_nonneg_R [OF assms(1,4)]
          shape_R_incr [OF assms(1,4,5,6)]]) simp
  with Q show ?thesis
    unfolding disk_temperature_profile [OF assms(1) MM assms(4)]
      disk_temperature_profile [OF assms(1) MM r2] sum.sel
    by (rule mult_strict_left_mono [rotated])
qed

lemma Tstar_value:
  assumes "0 < R0" and "0 < M" and "0 < Mdot"
  shows "Tstar R0 M Mdot = Inr ((3 * G * M * Mdot / (8 * pi * R0 ^ 3 * sb)) powr 0.25)"
proof -
  from assms(1) have nz: "R0 \<noteq> 0" by simp
  have "\<not> 3 * G * M * Mdot / (8 * pi * R0 ^ 3 * sb) < 0"
    using Tstar_positive [OF assms] by (rule less_not_sym)
  then show ?thesis unfolding Tstar_cases [OF nz] by (rule if_not_P)
qed

text \<open>
  C1 as stated fails: the profile is not decreasing on all of \<open>R > R0\<close>. For
  \<open>R0 = M = Mdot = 1\<close> the temperature at \<open>R = 1.21\<close> is below the temperature at
  \<open>R = 1.44\<close>: the factors under the fourth root are \<open>10^6 / 11^7\<close>, about 0.0513, and
  \<open>15625 / 279936\<close>, about 0.0558.
\<close>

theorem temperature_profile_counterexample:
  "disk_temperature 1.21 1 1 1
      = Inr ((3 * G / (8 * pi * sb)) powr 0.25 * (1000000 / 19487171) powr 0.25)
   \<and> disk_temperature 1.44 1 1 1
      = Inr ((3 * G / (8 * pi * sb)) powr 0.25 * (15625 / 279936) powr 0.25)
   \<and> (3 * G / (8 * pi * sb)) powr 0.25 * (1000000 / 19487171) powr 0.25
      < (3 * G / (8 * pi * sb)) powr 0.25 * (15625 / 279936) powr 0.25"
proof (intro conjI)
  have s1: "sqrt (100 / 121) = 10 / 11" by (rule real_sqrt_unique) (simp_all add: power2_eq_square)
  have s2: "sqrt (100 / 144) = 10 / 12" by (rule real_sqrt_unique) (simp_all add: power2_eq_square)
  have e1: "(1 / 1.21 :: real) = 100 / 121" and e2: "(1 / 1.44 :: real) = 100 / 144" by simp_all
  have v1: "(100 / 121) ^ 3 * (1 - 10 / 11) = (1000000 / 19487171 :: real)"
    by (simp add: power3_eq_cube)
  have v2: "(100 / 144) ^ 3 * (1 - 10 / 12) = (15625 / 279936 :: real)"
    by (simp add: power3_eq_cube)
  have Q: "3 * G * 1 * 1 / (8 * pi * 1 ^ 3 * sb) = 3 * G / (8 * pi * sb)" by simp
  show "disk_temperature 1.21 1 1 1
      = Inr ((3 * G / (8 * pi * sb)) powr 0.25 * (1000000 / 19487171) powr 0.25)"
  proof -
    have "disk_temperature 1.21 1 1 1 = Inr ((3 * G * 1 * 1 / (8 * pi * 1 ^ 3 * sb)) powr 0.25
          * ((1 / 1.21) ^ 3 * (1 - sqrt (1 / 1.21))) powr 0.25)"
      by (rule disk_temperature_profile) simp_all
    then show ?thesis unfolding e1 s1 v1 Q .
  qed
  show "disk_temperature 1.44 1 1 1
      = Inr ((3 * G / (8 * pi * sb)) powr 0.25 * (15625 / 279936) powr 0.25)"
  proof -
    have "disk_temperature 1.44 1 1 1 = Inr ((3 * G * 1 * 1 / (8 * pi * 1 ^ 3 * sb)) powr 0.25
          * ((1 / 1.44) ^ 3 * (1 - sqrt (1 / 1.44))) powr 0.25)"
      by (rule disk_temperature_profile) simp_all
    then show ?thesis unfolding e2 s2 v2 Q .
  qed
  have "0 < 3 * G / (8 * pi * sb)" using G_pos sb_pos by simp
  then have "0 < (3 * G / (8 * pi * sb)) powr 0.25" by (rule powr_pos)
  moreover have "(1000000 / 19487171 :: real) powr 0.25 < (15625 / 279936) powr 0.25"
    by (rule powr_less_mono2) simp_all
  ultimately show "(3 * G / (8 * pi * sb)) powr 0.25 * (1000000 / 19487171) powr 0.25
      < (3 * G / (8 * pi * sb)) powr 0.25 * (15625 / 279936) powr 0.25"
    by (rule mult_strict_left_mono [rotated])
qed

text \<open>
  C1, amended. For every inner radius \<open>R0 > 0\<close>, mass \<open>M > 0\<close> and accretion rate
  \<open>Mdot > 0\<close>, \<open>Tstar\<close> is a positive number and for \<open>R \<ge> R0\<close> the temperature is
  \<open>Tstar * ((R0/R)^3 * (1 - sqrt (R0/R)))^(1/4)\<close>. It is strictly decreasing in \<open>R\<close> for
  \<open>R \<ge> 49/36 * R0\<close> and strictly increasing for \<open>R0 \<le> R \<le> 49/36 * R0\<close>. It approaches
  0 as \<open>R\<close> approaches \<open>R0\<close> from above, and for large \<open>R\<close> it decays as the power law
  \<open>Tstar * (R0/R)^(3/4)\<close>: the quotient of the two tends to 1.
\<close>

theorem temperature_profile:
  assumes "0 < R0" and "0 < M" and "0 < Mdot"
  shows "\<exists>ts. 0 < ts \<and> Tstar R0 M Mdot = Inr ts
    \<and> (\<forall>R\<ge>R0. disk_temperature R R0 M Mdot
          = Inr (ts * ((R0 / R) ^ 3 * (1 - sqrt (R0 / R))) powr 0.25))
    \<and> (\<forall>R1 R2. 49 / 36 * R0 \<le> R1 \<and> R1 < R2 \<longrightarrow>
          projr (disk_temperature R2 R0 M Mdot) < projr (disk_temperature R1 R0 M Mdot))
    \<and> (\<forall>R1 R2. R0 \<le> R1 \<and> R1 < R2 \<and> R2 \<le> 49 / 36 * R0 \<longrightarrow>
          projr (disk_temperature R1 R0 M Mdot) < projr (disk_temperature R2 R0 M Mdot))
    \<and> ((\<lambda>R. projr (disk_temperature R R0 M Mdot)) \<longlongrightarrow> 0) (at_right R0)
    \<and> ((\<lambda>R. projr (disk_temperature R R0 M Mdot) / (ts * (R0 / R) powr (3 / 4)))
          \<longlongrightarrow> 1) at_top"
proof -
  define ts where "ts = (3 * G * M * Mdot / (8 * pi * R0 ^ 3 * sb)) powr 0.25"
  have MM: "0 \<le> M * Mdot" using assms(2,3) by simp
  have "0 < ts" unfolding ts_def using Tstar_positive [OF assms] by (rule powr_pos)
  moreover have "Tstar R0 M Mdot = Inr ts" unfolding ts_def using assms by (rule Tstar_value)
  moreover have "\<forall>R\<ge>R0. disk_temperature R R0 M Mdot
          = Inr (ts * ((R0 / R) ^ 3 * (1 - sqrt (R0 / R))) powr 0.25)"
    unfolding ts_def by (intro allI impI disk_temperature_profile assms(1) MM)
  moreover have "\<forall>R1 R2. 49 / 36 * R0 \<le> R1 \<and> R1 < R2 \<longrightarrow>
          projr (disk_temperature R2 R0 M Mdot) < projr (disk_temperature R1 R0 M Mdot)"
    using temperature_decreasing [OF assms] by blast
  moreover have "\<forall>R1 R2. R0 \<le> R1 \<and> R1 < R2 \<and> R2 \<le> 49 / 36 * R0 \<longrightarrow>
          projr (disk_temperature R1 R0 M Mdot) < projr (disk_temperature R2 R0 M Mdot)"
    using temperature_increasing [OF assms] by blast
  moreover have "((\<lambda>R. projr (disk_temperature R R0 M Mdot)) \<longlongrightarrow> 0) (at_right R0)"
    using assms(1) MM by (rule temperature_tendsto_zero)
  moreover have "((\<lambda>R. projr (disk_temperature R R0 M Mdot) / (ts * (R0 / R) powr (3 / 4)))
          \<longlongrightarrow> 1) at_top"
    unfolding ts_def using assms by (rule temperature_power_law)
  ultimately show ?thesis by blast
qed

theorem temperature_profile_witness:
  "(0::real) < 1 \<and> (49 / 36 * 1 \<le> (2::real) \<and> (2::real) < 4)
     \<and> ((1::real) \<le> 1.1 \<and> (1.1::real) < 1.2 \<and> (1.2::real) \<le> 49 / 36 * 1)
     \<and> (\<exists>ts. 0 < ts \<and> Tstar 1 1 1 = Inr ts
          \<and> disk_temperature 4 1 1 1 = Inr (ts * ((1 / 4) ^ 3 * (1 - sqrt (1 / 4))) powr 0.25)
          \<and> projr (disk_temperature 4 1 1 1) < projr (disk_temperature 2 1 1 1)
          \<and> projr (disk_temperature 1.1 1 1 1) < projr (disk_temperature 1.2 1 1 1)
          \<and> ((\<lambda>R. projr (disk_temperature R 1 1 1)) \<longlongrightarrow> 0) (at_right 1)
          \<and> ((\<lambda>R. projr (disk_temperature R 1 1 1) / (ts * (1 / R) powr (3 / 4)))
                \<longlongrightarrow> 1) at_top)"
proof -
  from temperature_profile [of 1 1 1] obtain ts where ts: "0 < ts" "Tstar 1 1 1 = Inr ts"
    and prof: "\<forall>R\<ge>1. disk_temperature R 1 1 1
          = Inr (ts * ((1 / R) ^ 3 * (1 - sqrt (1 / R))) powr 0.25)"
    and dec: "\<forall>R1 R2. 49 / 36 * 1 \<le> R1 \<and> R1 < R2 \<longrightarrow>
          projr (disk_temperature R2 1 1 1) < projr (disk_temperature R1 1 1 1)"
    and inc: "\<forall>R1 R2. 1 \<le> R1 \<and> R1 < R2 \<and> R2 \<le> 49 / 36 * 1 \<longrightarrow>
          projr (disk_temperature R1 1 1 1) < projr (disk_temperature R2 1 1 1)"
    and lim0: "((\<lambda>R. projr (disk_temperature R 1 1 1)) \<longlongrightarrow> 0) (at_right 1)"
    and law: "((\<lambda>R. projr (disk_temperature R 1 1 1) / (ts * (1 / R) powr (3 / 4)))
          \<longlongrightarrow> 1) at_top"
    by auto
  from prof have "disk_temperature 4 1 1 1
      = Inr (ts * ((1 / 4) ^ 3 * (1 - sqrt (1 / 4))) powr 0.25)" by simp
  moreover from dec have "projr (disk_temperature 4 1 1 1) < projr (disk_temperature 2 1 1 1)"
    by simp
  moreover from inc have "projr (disk_temperature 1.1 1 1 1) < projr (disk_temperature 1.2 1 1 1)"
    by simp
  ultimately show ?thesis using ts lim0 law by (intro conjI exI [of _ ts]) simp_all
qed

end
